theory Spec2Isabelle
  imports Main "HOL-Library.Sublist" "HOL-Library.AList" "HOL-Library.Char_ord"
    "HOL-Library.Product_Lexorder"
begin

section \<open>Strings\<close>

text \<open>
  Python strings are modelled as \<open>string\<close>, the bytes of their UTF-8 encoding. The
  case conversions and character classes below are the ASCII part of \<open>str.upper\<close>,
  \<open>str.lower\<close> and of the classes \<open>[a-z]\<close>, \<open>[0-9]\<close>, \<open>[-_]\<close> of the source's regular
  expressions; bytes outside ASCII are left as they are.
\<close>

definition upper_char :: "char \<Rightarrow> char" where
  "upper_char c =
     (case map_of (zip ''abcdefghijklmnopqrstuvwxyz'' ''ABCDEFGHIJKLMNOPQRSTUVWXYZ'') c of
        None \<Rightarrow> c | Some u \<Rightarrow> u)"

definition lower_char :: "char \<Rightarrow> char" where
  "lower_char c =
     (case map_of (zip ''ABCDEFGHIJKLMNOPQRSTUVWXYZ'' ''abcdefghijklmnopqrstuvwxyz'') c of
        None \<Rightarrow> c | Some l \<Rightarrow> l)"

definition str_upper :: "string \<Rightarrow> string" where
  "str_upper s = map upper_char s"

definition str_lower :: "string \<Rightarrow> string" where
  "str_lower s = map lower_char s"

definition is_lower :: "char \<Rightarrow> bool" where
  "is_lower c = (CHR ''a'' \<le> c \<and> c \<le> CHR ''z'')"

definition is_digit :: "char \<Rightarrow> bool" where
  "is_digit c = (CHR ''0'' \<le> c \<and> c \<le> CHR ''9'')"

definition is_alnum :: "char \<Rightarrow> bool" where
  "is_alnum c = (is_lower c \<or> is_digit c)"

definition is_sep :: "char \<Rightarrow> bool" where
  "is_sep c = (c = CHR ''-'' \<or> c = CHR ''_'')"

text \<open>\<open>s.replace(old, new)\<close>: every occurrence, left to right, without overlap.\<close>

fun replace :: "string \<Rightarrow> string \<Rightarrow> string \<Rightarrow> string" where
  "replace old new [] = (if old = [] then new else [])"
| "replace old new (c # cs) =
     (if old = [] then new @ c # replace old new cs
      else if prefix old (c # cs) then new @ replace old new (drop (length old) (c # cs))
      else c # replace old new cs)"

text \<open>\<open>sub in s\<close> on strings: \<open>sub\<close> occurs in \<open>s\<close> as a contiguous run.\<close>

fun contains :: "string \<Rightarrow> string \<Rightarrow> bool" where
  "contains sub [] = (sub = [])"
| "contains sub (c # cs) = (prefix sub (c # cs) \<or> contains sub cs)"

text \<open>
  \<open>Path.suffix\<close> and \<open>Path.stem\<close> of pathlib: the name is cut at its last dot, unless
  that dot is the first or the last character of the name.
\<close>

definition rfind_dot :: "string \<Rightarrow> nat option" where
  "rfind_dot name =
     (if CHR ''.'' \<in> set name
      then Some (length name - 1 - length (takeWhile (\<lambda>c. c \<noteq> CHR ''.'') (rev name)))
      else None)"

definition path_suffix :: "string \<Rightarrow> string" where
  "path_suffix name =
     (case rfind_dot name of
        Some i \<Rightarrow> if 0 < i \<and> i < length name - 1 then drop i name else []
      | None \<Rightarrow> [])"

definition path_stem :: "string \<Rightarrow> string" where
  "path_stem name =
     (case rfind_dot name of
        Some i \<Rightarrow> if 0 < i \<and> i < length name - 1 then take i name else name
      | None \<Rightarrow> name)"

section \<open>reconstruct\_MEG: subject identifiers\<close>

text \<open>\<open>re.sub(r'^sub[-_]', '', subj_id, flags=re.I)\<close>.\<close>

definition strip_sub_prefix :: "string \<Rightarrow> string" where
  "strip_sub_prefix s =
     (case s of
        a # b # c # d # rest \<Rightarrow>
          if str_lower [a, b, c] = ''sub'' \<and> is_sep d then rest else s
      | _ \<Rightarrow> s)"

definition normalize_subject_id :: "string \<Rightarrow> string" where
  "normalize_subject_id subj_id =
     str_upper (filter (\<lambda>c. \<not> is_sep c) (strip_sub_prefix subj_id))"

text \<open>
  The identifier of the destination folders, as the session loop computes it:
  \<open>subject_dir.name.replace('_', '').replace('sub-', '').replace('sub_', '').upper()\<close>.
\<close>

definition dest_subject_id :: "string \<Rightarrow> string" where
  "dest_subject_id name =
     str_upper (replace ''sub_'' '''' (replace ''sub-'' '''' (replace ''_'' '''' name)))"

section \<open>reconstruct\_MEG: parsing a recording's file name\<close>

text \<open>
  The two regular expressions of the conversion loop are matched by backtracking. Each
  piece of a pattern is a function from the text still to match to the list of ways
  the piece can match there, in the order the matcher tries them: a greedy repetition
  offers its longest match first, an optional piece is tried before it is left out.
  \<open>re.match\<close> returns the first complete match of that search.
\<close>

definition greedy :: "nat \<Rightarrow> (char \<Rightarrow> bool) \<Rightarrow> string \<Rightarrow> (string \<times> string) list" where
  "greedy least P s =
     map (\<lambda>k. (take k s, drop k s)) (rev [least ..< Suc (length (takeWhile P s))])"

definition one_of :: "(char \<Rightarrow> bool) \<Rightarrow> string \<Rightarrow> string list" where
  "one_of P s = (case s of [] \<Rightarrow> [] | c # cs \<Rightarrow> if P c then [cs] else [])"

definition lit :: "string \<Rightarrow> string \<Rightarrow> string list" where
  "lit l s = (if prefix l s then [drop (length l) s] else [])"

definition optional :: "(string \<Rightarrow> string list) \<Rightarrow> string \<Rightarrow> string list" where
  "optional m s = m s @ [s]"

text \<open>
  \<open>^(?:sub[-_]?)?([a-z0-9]+)[-_]([a-z]+[0-9]*)[_-]raw\<close>: all matches at the start of
  the name, best first, each as the pair of its two groups.
\<close>

definition filename_matches :: "string \<Rightarrow> (string \<times> string) list" where
  "filename_matches fname =
     List.bind (optional (\<lambda>s. List.bind (lit ''sub'' s) (optional (one_of is_sep))) fname) (\<lambda>r0.
     List.bind (greedy 1 is_alnum r0) (\<lambda>(g1, r1).
     List.bind (one_of is_sep r1) (\<lambda>r2.
     List.bind (greedy 1 is_lower r2) (\<lambda>(t, r3).
     List.bind (greedy 0 is_digit r3) (\<lambda>(d, r4).
     List.bind (one_of is_sep r4) (\<lambda>r5.
     List.bind (lit ''raw'' r5) (\<lambda>r6. [(g1, t @ d)])))))))"

definition first_match :: "'a list \<Rightarrow> 'a option" where
  "first_match ms = (case ms of [] \<Rightarrow> None | m # ms' \<Rightarrow> Some m)"

definition match_filename :: "string \<Rightarrow> (string \<times> string) option" where
  "match_filename fname = first_match (filename_matches fname)"

text \<open>\<open>([a-z]+)(\d*)\<close> on the captured task and run.\<close>

definition task_matches :: "string \<Rightarrow> (string \<times> string) list" where
  "task_matches s =
     List.bind (greedy 1 is_lower s) (\<lambda>(t, r).
     List.bind (greedy 0 is_digit r) (\<lambda>(d, r'). [(t, d)]))"

definition match_task :: "string \<Rightarrow> (string \<times> string) option" where
  "match_task s = first_match (task_matches s)"

text \<open>\<open>int\<close> on a run of decimal digits.\<close>

definition digit_value :: "char \<Rightarrow> nat" where
  "digit_value c = length (takeWhile (\<lambda>d. d \<noteq> c) ''0123456789'')"

definition int_of_digits :: "string \<Rightarrow> nat" where
  "int_of_digits ds = foldl (\<lambda>n c. 10 * n + digit_value c) 0 ds"

text \<open>The name as the loop normalises it before matching.\<close>

definition strip_extension :: "string \<Rightarrow> string" where
  "strip_extension name = replace ''.fif.gz'' '''' (replace ''.fif'' '''' (str_lower name))"

text \<open>
  Subject, task and run of a recording, or \<open>None\<close> where the loop skips the file with a
  warning.
\<close>

definition parse_fname :: "string \<Rightarrow> (string \<times> string \<times> nat option) option" where
  "parse_fname fname =
     (case match_filename fname of
        None \<Rightarrow> None
      | Some (g1, task_run_str) \<Rightarrow>
          (case match_task task_run_str of
             None \<Rightarrow> None
           | Some (task, run_digits) \<Rightarrow>
               Some (str_upper g1, task,
                     if run_digits = [] then None else Some (int_of_digits run_digits))))"

definition parse_filename :: "string \<Rightarrow> (string \<times> string \<times> nat option) option" where
  "parse_filename name = parse_fname (strip_extension name)"

section \<open>reconstruct\_MEG: the pre-check of a subject\<close>

text \<open>
  A directory is the list of its entries in the order \<open>iterdir\<close> yields them; a file
  carries its content.
\<close>

datatype entry = File string | Dir "(string \<times> entry) list"

type_synonym listing = "(string \<times> entry) list"

fun is_file :: "entry \<Rightarrow> bool" where
  "is_file (File content) = True"
| "is_file (Dir items) = False"

text \<open>
  \<open>subject_has_invalid_files(session_folder, subject_dir)\<close>: the loop returns at the
  first file with suffix \<open>.fif\<close> (in any case) whose stem lacks the expected identifier.
\<close>

fun subject_has_invalid_files :: "listing \<Rightarrow> string \<Rightarrow> bool" where
  "subject_has_invalid_files [] subject_dir = False"
| "subject_has_invalid_files ((name, e) # fs) subject_dir =
     (if is_file e \<and> str_lower (path_suffix name) \<in> set [''.fif'', ''.fif.gz'']
      then (if \<not> contains (str_upper (normalize_subject_id subject_dir)) (str_upper (path_stem name))
            then True
            else subject_has_invalid_files fs subject_dir)
      else subject_has_invalid_files fs subject_dir)"

text \<open>
  The pre-check loop over the session folders: the name of the session at which the
  loop breaks, or \<open>None\<close> when every session passes.
\<close>

fun pre_check :: "string \<Rightarrow> listing \<Rightarrow> string option" where
  "pre_check subject_name [] = None"
| "pre_check subject_name ((session_name, Dir fs) # rest) =
     (if subject_has_invalid_files fs subject_name then Some session_name
      else pre_check subject_name rest)"
| "pre_check subject_name ((session_name, File content) # rest) = pre_check subject_name rest"

section \<open>reconstruct\_MEG: the session loop\<close>

text \<open>
  The archive is a map from paths (lists of components below the root) to nodes. The
  calls that leave the program (the BIDS writer, the relocation of the writer's output,
  the extractor subprocess) are recorded in the order they are made. Operating system
  failures of \<open>mkdir\<close> and \<open>copy2\<close> are not modelled, and the subject directory that is
  read lies outside the archive that is written.
\<close>

type_synonym path = "string list"

datatype fsnode = RegularFile string | Directory

type_synonym filesystem = "path \<Rightarrow> fsnode option"

datatype call =
    WriteBids string string string "nat option"
  | Relocate path
  | RunExtractor "string list"

text \<open>
  \<open>WriteBids subject session task run\<close> is \<open>write_raw_bids\<close> on the path built from
  these four; \<open>Relocate d\<close> is the step that moves the entries of \<open>d/meg\<close> up into \<open>d\<close>
  when that folder exists; \<open>RunExtractor cmd\<close> is \<open>subprocess.run(cmd)\<close>.
\<close>

record world =
  fs :: filesystem
  calls :: "call list"
  failed_bids_files :: "string list"

definition path_str :: "path \<Rightarrow> string" where
  "path_str p = concat (map (\<lambda>c. CHR ''/'' # c) p)"

definition reconstructed_base :: "string \<Rightarrow> path" where
  "reconstructed_base project_name = [''data'', ''storage'', ''projects'', project_name, ''meg'']"

definition reconstructed_path :: "string \<Rightarrow> path" where
  "reconstructed_path project_name = reconstructed_base project_name @ [''reconstructed'']"

definition raw_path :: "string \<Rightarrow> path" where
  "raw_path project_name = reconstructed_base project_name @ [''raw'']"

text \<open>\<open>mkdir(parents=True, exist_ok=True)\<close>.\<close>

definition mkdir_p :: "path \<Rightarrow> filesystem \<Rightarrow> filesystem" where
  "mkdir_p p f = fold (\<lambda>q g. if g q = None then g(q \<mapsto> Directory) else g) (prefixes p) f"

text \<open>The copy loop: \<open>copy2\<close> of every file of the session whose destination does not exist.\<close>

fun copy_files :: "listing \<Rightarrow> path \<Rightarrow> filesystem \<Rightarrow> filesystem" where
  "copy_files [] dest f = f"
| "copy_files ((name, File content) # items) dest f =
     copy_files items dest
       (if f (dest @ [name]) = None then f(dest @ [name] \<mapsto> RegularFile content) else f)"
| "copy_files ((name, Dir sub) # items) dest f = copy_files items dest f"

text \<open>The files of a session folder with their contents, in the order of the folder.\<close>

fun session_files :: "listing \<Rightarrow> (string \<times> string) list" where
  "session_files [] = []"
| "session_files ((name, File content) # items) = (name, content) # session_files items"
| "session_files ((name, Dir sub) # items) = session_files items"

text \<open>
  The conversion loop over \<open>meg_files\<close>. \<open>loads\<close> tells whether \<open>mne.io.read_raw_fif\<close>
  reads the file, \<open>writes\<close> whether \<open>write_raw_bids\<close> succeeds on it. The loop variable
  \<open>subject_id\<close> is threaded through: it is assigned where the first pattern matches.
\<close>

fun convert_loop ::
  "(string \<Rightarrow> bool) \<Rightarrow> (string \<Rightarrow> bool) \<Rightarrow> string \<Rightarrow> string list \<Rightarrow> string \<times> world \<Rightarrow> string \<times> world" where
  "convert_loop loads writes session_id [] st = st"
| "convert_loop loads writes session_id (name # rest) (subject_id, w) =
     (if \<not> loads name then convert_loop loads writes session_id rest (subject_id, w)
      else
        (case match_filename (strip_extension name) of
           None \<Rightarrow> convert_loop loads writes session_id rest (subject_id, w)
         | Some (g1, task_run_str) \<Rightarrow>
             (case match_task task_run_str of
                None \<Rightarrow> convert_loop loads writes session_id rest (str_upper g1, w)
              | Some (task, run_digits) \<Rightarrow>
                  convert_loop loads writes session_id rest
                    (str_upper g1,
                     w\<lparr>calls := calls w @
                          [WriteBids (str_upper g1) session_id task
                             (if run_digits = [] then None else Some (int_of_digits run_digits))],
                       failed_bids_files :=
                          (if writes name then failed_bids_files w
                           else failed_bids_files w @ [name])\<rparr>))))"

text \<open>The path of the table and the command line of the extractor.\<close>

definition participants_tsv_path :: "string \<Rightarrow> path" where
  "participants_tsv_path project_name = reconstructed_path project_name @ [''participants.tsv'']"

definition extractor_cmd :: "string \<Rightarrow> string \<Rightarrow> string \<Rightarrow> string list" where
  "extractor_cmd project_name subject_id session_id =
     [''python3'', ''/data/storage/software/extract_subject_info.py'',
      ''--dicom_path'',
      ''/data/storage/projects/'' @ project_name @ ''/mri/raw_sorted/sub-'' @ subject_id
        @ ''/ses-'' @ session_id,
      ''--subject_id'', ''sub-'' @ subject_id,
      ''--session_id'', ''ses-'' @ session_id,
      ''--participants_tsv'', path_str (participants_tsv_path project_name)]"

definition tsv_header_line :: string where
  "tsv_header_line =
     ''participant_id'' @ [CHR 0x09] @ ''session_id'' @ [CHR 0x09] @ ''sex'' @ [CHR 0x09]
       @ ''weight'' @ [CHR 0x09] @ ''age'' @ [CHR 0x0A]"

text \<open>The table is created with its header line when it does not exist.\<close>

definition ensure_participants_tsv :: "string \<Rightarrow> filesystem \<Rightarrow> filesystem" where
  "ensure_participants_tsv project_name f =
     (if f (participants_tsv_path project_name) = None
      then f(participants_tsv_path project_name \<mapsto> RegularFile tsv_header_line)
      else f)"

text \<open>
  One pass of the loop body over an entry of the subject directory. \<open>glob("*.fif")\<close>
  keeps the names that end in \<open>.fif\<close>.
\<close>

definition process_session ::
  "(string \<Rightarrow> bool) \<Rightarrow> (string \<Rightarrow> bool) \<Rightarrow> string \<Rightarrow> string \<Rightarrow> bool \<Rightarrow> string \<times> entry \<Rightarrow> world \<Rightarrow> world" where
  "process_session loads writes subject_dir_name project_name do_bids session w =
     (case snd session of
        File content \<Rightarrow> w
      | Dir items \<Rightarrow>
          (let session_id = ''20'' @ fst session;
               meg_files = filter (\<lambda>n. suffix ''.fif'' n) (map fst items)
           in if meg_files = [] then w
              else
                (let subject_id = dest_subject_id subject_dir_name;
                     raw_subj_ses_dir =
                       raw_path project_name @ [''sub-'' @ subject_id, ''ses-'' @ session_id];
                     w1 = w\<lparr>fs := copy_files items raw_subj_ses_dir (mkdir_p raw_subj_ses_dir (fs w))\<rparr>;
                     st = (if do_bids
                           then convert_loop loads writes session_id meg_files (subject_id, w1)
                           else (subject_id, w1));
                     subject_bids_dir =
                       reconstructed_path project_name @ [''sub-'' @ fst st, ''ses-'' @ session_id];
                     w2 = snd st;
                     w3 = w2\<lparr>fs := ensure_participants_tsv project_name (fs w2),
                              calls := calls w2 @
                                [Relocate subject_bids_dir,
                                 RunExtractor (extractor_cmd project_name (fst st) session_id)]\<rparr>
                 in w3)))"


text \<open>An archive with nothing in it and no call made.\<close>

definition empty_world :: world where
  "empty_world = \<lparr>fs = (\<lambda>p. None), calls = [], failed_bids_files = []\<rparr>"

section \<open>extract\_subject\_info: the fields of a DICOM header\<close>

text \<open>
  A value read from a header or a table is a string or Python's \<open>None\<close>. A data set maps
  the tags it holds to their values; \<open>dcm.get(tag, None)\<close> is the lookup, and an element
  that is present counts as true in a condition. A number (the weight) is carried by
  the text \<open>str\<close> gives for it.
\<close>

datatype "value" = Str string | NoneValue































section \<open>extract\_subject\_info: the participants table\<close>

text \<open>
  A file is the string of its bytes, or \<open>None\<close> when the path does not exist. The byte
  order mark \<open>U+FEFF\<close> is three bytes in UTF-8; \<open>f.read(1)\<close> reads it as one character.
\<close>

abbreviation TAB :: char where "TAB \<equiv> CHR 0x09"
abbreviation LF :: char where "LF \<equiv> CHR 0x0A"
abbreviation CR :: char where "CR \<equiv> CHR 0x0D"
abbreviation QUOTE :: char where "QUOTE \<equiv> CHR 0x22"

definition BOM :: string where
  "BOM = [CHR 0xEF, CHR 0xBB, CHR 0xBF]"

text \<open>\<open>first_char = f.read(1)\<close>, and \<open>f.seek(0)\<close> unless it is the mark.\<close>

definition skip_bom :: "string \<Rightarrow> string" where
  "skip_bom content = (if prefix BOM content then drop (length BOM) content else content)"

text \<open>The file is opened in text mode: \<open>\r\n\<close> and \<open>\r\<close> are read as \<open>\n\<close>.\<close>

fun universal_newlines :: "string \<Rightarrow> string" where
  "universal_newlines [] = []"
| "universal_newlines [c] = [if c = CR then LF else c]"
| "universal_newlines (c # d # cs) =
     (if c = CR \<and> d = LF then LF # universal_newlines cs
      else if c = CR then LF # universal_newlines (d # cs)
      else c # universal_newlines (d # cs))"

text \<open>
  \<open>csv.reader(f, delimiter='\t')\<close> as the state machine of the csv module, run over the
  whole text: \<open>saved\<close> are the fields of the record so far, last first, \<open>cur\<close> the
  characters of the field so far, last first. A line end outside quotes ends the
  record, inside quotes it belongs to the field; the end of the text ends a record
  that has begun. The text is the output of \<open>universal_newlines\<close>, so it holds no
  carriage return; the module's limit on the length of a field is left out.
\<close>

datatype parser_state =
  START_RECORD | START_FIELD | IN_FIELD | IN_QUOTED_FIELD | QUOTE_IN_QUOTED_FIELD

fun csv_parse :: "parser_state \<Rightarrow> string list \<Rightarrow> string \<Rightarrow> string \<Rightarrow> string list list" where
  "csv_parse st saved cur [] =
     (case st of
        START_RECORD \<Rightarrow> []
      | START_FIELD \<Rightarrow> [rev ([] # saved)]
      | IN_FIELD \<Rightarrow> [rev (rev cur # saved)]
      | IN_QUOTED_FIELD \<Rightarrow> [rev (rev cur # saved)]
      | QUOTE_IN_QUOTED_FIELD \<Rightarrow> [rev (rev cur # saved)])"
| "csv_parse st saved cur (c # cs) =
     (case st of
        START_RECORD \<Rightarrow>
          (if c = LF then [] # csv_parse START_RECORD [] [] cs
           else if c = QUOTE then csv_parse IN_QUOTED_FIELD [] [] cs
           else if c = TAB then csv_parse START_FIELD [[]] [] cs
           else csv_parse IN_FIELD [] [c] cs)
      | START_FIELD \<Rightarrow>
          (if c = LF then rev ([] # saved) # csv_parse START_RECORD [] [] cs
           else if c = QUOTE then csv_parse IN_QUOTED_FIELD saved [] cs
           else if c = TAB then csv_parse START_FIELD ([] # saved) [] cs
           else csv_parse IN_FIELD saved [c] cs)
      | IN_FIELD \<Rightarrow>
          (if c = LF then rev (rev cur # saved) # csv_parse START_RECORD [] [] cs
           else if c = TAB then csv_parse START_FIELD (rev cur # saved) [] cs
           else csv_parse IN_FIELD saved (c # cur) cs)
      | IN_QUOTED_FIELD \<Rightarrow>
          (if c = QUOTE then csv_parse QUOTE_IN_QUOTED_FIELD saved cur cs
           else csv_parse IN_QUOTED_FIELD saved (c # cur) cs)
      | QUOTE_IN_QUOTED_FIELD \<Rightarrow>
          (if c = QUOTE then csv_parse IN_QUOTED_FIELD saved (c # cur) cs
           else if c = TAB then csv_parse START_FIELD (rev cur # saved) [] cs
           else if c = LF then rev (rev cur # saved) # csv_parse START_RECORD [] [] cs
           else csv_parse IN_FIELD saved (c # cur) cs))"

definition csv_reader :: "string \<Rightarrow> string list list" where
  "csv_reader text = csv_parse START_RECORD [] [] text"

text \<open>
  \<open>csv.DictReader\<close>: the first record gives the field names, empty records are skipped,
  and every other record becomes a dictionary, \<open>dict(zip(fieldnames, row))\<close> with
  \<open>None\<close> for the names a short record does not reach. A dictionary is the list of its
  items in insertion order. The item a long record gets under the key \<open>None\<close> is left
  out: no lookup below uses that key.
\<close>

type_synonym row = "(string \<times> value) list"

definition dict_row :: "string list \<Rightarrow> string list \<Rightarrow> row" where
  "dict_row fieldnames r =
     fold (\<lambda>kv d. AList.update (fst kv) (snd kv) d)
       (zip fieldnames (map Str r @ replicate (length fieldnames - length r) NoneValue)) []"

definition dict_reader :: "string list list \<Rightarrow> row list" where
  "dict_reader records =
     (case records of
        [] \<Rightarrow> []
      | fieldnames # rest \<Rightarrow> map (dict_row fieldnames) (filter (\<lambda>r. r \<noteq> []) rest))"

definition read_rows :: "string option \<Rightarrow> row list" where
  "read_rows file =
     (case file of
        None \<Rightarrow> []
      | Some content \<Rightarrow> dict_reader (csv_reader (universal_newlines (skip_bom content))))"

definition headers :: "string list" where
  "headers = [''participant_id'', ''session_id'', ''sex'', ''weight'', ''age'']"

text \<open>\<open>row.get(key, default)\<close>.\<close>

definition row_get :: "row \<Rightarrow> string \<Rightarrow> string \<Rightarrow> value" where
  "row_get row key dflt = (case map_of row key of None \<Rightarrow> Str dflt | Some v \<Rightarrow> v)"

text \<open>The condition under which the loop updates a row.\<close>

definition row_matches :: "string \<Rightarrow> string \<Rightarrow> row \<Rightarrow> bool" where
  "row_matches subject_id session_id row =
     (let pid = row_get row ''participant_id'' [];
          ses = row_get row ''session_id'' []
      in pid = Str subject_id
         \<and> (ses = Str session_id \<or> (ses = Str ''n/a'' \<and> session_id \<noteq> ''n/a'')))"

definition overwrite_row :: "string \<Rightarrow> value \<Rightarrow> value \<Rightarrow> value \<Rightarrow> row \<Rightarrow> row" where
  "overwrite_row session_id sex weight age row =
     AList.update ''age'' age
       (AList.update ''weight'' weight
         (AList.update ''sex'' sex
           (AList.update ''session_id'' (Str session_id) row)))"

text \<open>The loop over the rows with its \<open>break\<close>: the rows after it, and the flag \<open>updated\<close>.\<close>

fun update_loop ::
  "string \<Rightarrow> string \<Rightarrow> value \<Rightarrow> value \<Rightarrow> value \<Rightarrow> row list \<Rightarrow> row list \<times> bool" where
  "update_loop subject_id session_id sex weight age [] = ([], False)"
| "update_loop subject_id session_id sex weight age (row # rows) =
     (if row_matches subject_id session_id row
      then (overwrite_row session_id sex weight age row # rows, True)
      else (case update_loop subject_id session_id sex weight age rows of
              (rows', updated) \<Rightarrow> (row # rows', updated)))"

definition new_row :: "string \<Rightarrow> string \<Rightarrow> value \<Rightarrow> value \<Rightarrow> value \<Rightarrow> row" where
  "new_row subject_id session_id sex weight age =
     AList.update ''age'' age
       (AList.update ''weight'' weight
         (AList.update ''sex'' sex
           (AList.update ''session_id'' (Str session_id)
             (AList.update ''participant_id'' (Str subject_id)
               (map (\<lambda>h. (h, Str [])) headers)))))"

definition merge_rows ::
  "string \<Rightarrow> string \<Rightarrow> value \<Rightarrow> value \<Rightarrow> value \<Rightarrow> row list \<Rightarrow> row list" where
  "merge_rows subject_id session_id sex weight age rows =
     (case update_loop subject_id session_id sex weight age rows of
        (rows', updated) \<Rightarrow>
          if updated then rows' else rows' @ [new_row subject_id session_id sex weight age])"

text \<open>
  \<open>csv.DictWriter(f, fieldnames=headers, delimiter='\t')\<close> with the default dialect: a
  field is quoted when it holds the delimiter, the quote or a character of the line
  terminator, a quote inside it is doubled, \<open>None\<close> is written as the empty field, and
  every record ends with \<open>\r\n\<close>.
\<close>

definition needs_quotes :: "string \<Rightarrow> bool" where
  "needs_quotes s = list_ex (\<lambda>c. c \<in> set [TAB, QUOTE, CR, LF]) s"

definition write_field :: "value \<Rightarrow> string" where
  "write_field v =
     (case v of
        NoneValue \<Rightarrow> []
      | Str s \<Rightarrow>
          if needs_quotes s
          then QUOTE # concat (map (\<lambda>c. if c = QUOTE then [QUOTE, QUOTE] else [c]) s) @ [QUOTE]
          else s)"

text \<open>The text of a value in the file: \<open>None\<close> is written as the empty field.\<close>

definition cell_text :: "value \<Rightarrow> string" where
  "cell_text v = (case v of Str s \<Rightarrow> s | NoneValue \<Rightarrow> [])"

fun join_tab :: "string list \<Rightarrow> string" where
  "join_tab [] = []"
| "join_tab [x] = x"
| "join_tab (x # y # r) = x @ TAB # join_tab (y # r)"

definition write_row :: "value list \<Rightarrow> string" where
  "write_row cells = join_tab (map write_field cells) @ [CR, LF]"

text \<open>\<open>clean_row = {h: row.get(h, '') for h in headers}\<close>, as the list of its values.\<close>

definition clean_row :: "row \<Rightarrow> value list" where
  "clean_row row = map (\<lambda>h. row_get row h []) headers"

text \<open>
  \<open>update_participants_tsv\<close>: from the file at the path before the call (\<open>None\<close> when
  there is none) to the file after it.
\<close>

definition update_participants_tsv ::
  "string option \<Rightarrow> string \<Rightarrow> string \<Rightarrow> value \<Rightarrow> value \<Rightarrow> value \<Rightarrow> string" where
  "update_participants_tsv file subject_id session_id sex weight age =
     write_row (map Str headers)
     @ concat (map (\<lambda>row. write_row (clean_row row))
                (merge_rows subject_id session_id sex weight age (read_rows file)))"

text \<open>
  For the statements about the file: the row as it is read again from the line
  written for it, and rows without a carriage return.
\<close>

definition reread :: "row \<Rightarrow> row" where
  "reread r = dict_row headers (map (\<lambda>v. universal_newlines (cell_text v)) (clean_row r))"

definition cr_free_row :: "row \<Rightarrow> bool" where
  "cr_free_row r = list_all (\<lambda>kv. CR \<notin> set (cell_text (snd kv))) r"

section \<open>Properties of the file name parser\<close>

lemma first_match_append:
  "first_match (a @ b) = (case first_match a of Some m \<Rightarrow> Some m | None \<Rightarrow> first_match b)"
  by (cases a) (simp_all add: first_match_def)

lemma greedy_longest:
  assumes "list_all P xs" and "case ys of [] \<Rightarrow> True | y # ys' \<Rightarrow> \<not> P y" and "least \<le> length xs"
  shows "\<exists>tl. greedy least P (xs @ ys) = (xs, ys) # tl"
proof -
  have "takeWhile P (xs @ ys) = xs @ takeWhile P ys"
    using assms(1) by (simp add: list_all_iff)
  moreover have "takeWhile P ys = []"
    using assms(2) by (cases ys) simp_all
  ultimately have tw: "takeWhile P (xs @ ys) = xs" by simp
  have "rev [least ..< Suc (length xs)] = length xs # rev [least ..< length xs]"
    using assms(3) by simp
  then show ?thesis by (simp add: greedy_def tw)
qed

lemma step_greedy:
  assumes "list_all P xs" and "case ys of [] \<Rightarrow> True | y # ys' \<Rightarrow> \<not> P y" and "least \<le> length xs"
    and "first_match (f (xs, ys)) = Some m"
  shows "first_match (List.bind (greedy least P (xs @ ys)) f) = Some m"
proof -
  obtain tl where "greedy least P (xs @ ys) = (xs, ys) # tl"
    using greedy_longest[OF assms(1-3)] by blast
  then show ?thesis using assms(4) by (simp add: first_match_append)
qed

lemma sep_not_class: "is_sep c \<Longrightarrow> \<not> is_alnum c \<and> \<not> is_lower c \<and> \<not> is_digit c"
  by (auto simp: is_sep_def is_alnum_def is_lower_def is_digit_def)

lemma digit_not_lower: "is_digit c \<Longrightarrow> \<not> is_lower c"
  by (simp add: is_lower_def is_digit_def less_eq_char_def)

lemma digits_then_sep:
  assumes "list_all is_digit ds" and "is_sep s2"
  shows "case ds @ s2 # r of [] \<Rightarrow> True | y # ys' \<Rightarrow> \<not> is_lower y"
  using assms digit_not_lower sep_not_class by (cases ds) auto

lemma body_match:
  assumes "subj \<noteq> []" and "list_all is_alnum subj" and "is_sep s1" and "task \<noteq> []"
    and "list_all is_lower task" and "list_all is_digit ds" and "is_sep s2"
  shows "first_match (
     List.bind (greedy 1 is_alnum (subj @ s1 # task @ ds @ s2 # ''raw'' @ rest)) (\<lambda>(g1, r1).
     List.bind (one_of is_sep r1) (\<lambda>r2.
     List.bind (greedy 1 is_lower r2) (\<lambda>(t, r3).
     List.bind (greedy 0 is_digit r3) (\<lambda>(d, r4).
     List.bind (one_of is_sep r4) (\<lambda>r5.
     List.bind (lit ''raw'' r5) (\<lambda>r6. [(g1, t @ d)]))))))) = Some (subj, task @ ds)"
proof -
  have d: "first_match (List.bind (greedy 0 is_digit (ds @ s2 # ''raw'' @ rest)) (\<lambda>(d, r4).
     List.bind (one_of is_sep r4) (\<lambda>r5.
     List.bind (lit ''raw'' r5) (\<lambda>r6. [(subj, task @ d)])))) = Some (subj, task @ ds)"
    by (rule step_greedy)
      (use assms sep_not_class in \<open>auto simp: one_of_def lit_def first_match_def\<close>)
  have t: "first_match (List.bind (greedy 1 is_lower (task @ ds @ s2 # ''raw'' @ rest)) (\<lambda>(t, r3).
     List.bind (greedy 0 is_digit r3) (\<lambda>(d, r4).
     List.bind (one_of is_sep r4) (\<lambda>r5.
     List.bind (lit ''raw'' r5) (\<lambda>r6. [(subj, t @ d)]))))) = Some (subj, task @ ds)"
    by (rule step_greedy)
      (use assms digits_then_sep[OF assms(6,7)] d in \<open>auto simp: Suc_le_eq\<close>)
  show ?thesis
    by (rule step_greedy) (use assms sep_not_class t in \<open>auto simp: Suc_le_eq one_of_def\<close>)
qed

lemma prefix_sub_sep:
  assumes "is_sep s1" and "prefix ''sub'' (subj @ s1 # r)"
  shows "prefix ''sub'' subj"
proof -
  have n: "s1 \<noteq> CHR ''s''" "s1 \<noteq> CHR ''u''" "s1 \<noteq> CHR ''b''"
    using assms(1) by (auto simp: is_sep_def)
  show ?thesis
  proof (cases subj)
    case Nil
    then show ?thesis using assms(2) n by simp
  next
    case c1: (Cons a as)
    show ?thesis
    proof (cases as)
      case Nil
      then show ?thesis using assms(2) n c1 by simp
    next
      case c2: (Cons b bs)
      show ?thesis
      proof (cases bs)
        case Nil
        then show ?thesis using assms(2) n c1 c2 by simp
      next
        case (Cons c cs)
        then show ?thesis using assms(2) c1 c2 by simp
      qed
    qed
  qed
qed

lemma match_filename_grammar:
  assumes "pre \<in> {[], ''sub'', ''sub-'', ''sub_''}"
    and "subj \<noteq> []" and "list_all is_alnum subj" and "is_sep s1" and "task \<noteq> []"
    and "list_all is_lower task" and "list_all is_digit ds" and "is_sep s2"
    and "pre = [] \<longrightarrow> \<not> prefix ''sub'' subj"
  shows "match_filename (pre @ subj @ s1 # task @ ds @ s2 # ''raw'' @ rest) = Some (subj, task @ ds)"
proof -
  note bm = body_match[OF assms(2-8), of rest]
  obtain a as where subj: "subj = a # as" using assms(2) by (cases subj) auto
  have na: "\<not> is_sep a" using assms(3) sep_not_class subj by auto
  consider "pre = []" | "pre = ''sub''" | "pre = ''sub-''" | "pre = ''sub_''"
    using assms(1) by auto
  then show ?thesis
  proof cases
    case 1
    have "\<not> prefix ''sub'' (subj @ s1 # task @ ds @ s2 # ''raw'' @ rest)"
      using prefix_sub_sep[OF assms(4)] assms(9) 1 by blast
    then show ?thesis using bm 1
      by (simp add: match_filename_def filename_matches_def optional_def lit_def
          first_match_append)
  next
    case 2
    show ?thesis using bm na
      by (simp add: 2 subj match_filename_def filename_matches_def optional_def lit_def
          one_of_def first_match_append)
  next
    case 3
    show ?thesis using bm
      by (simp add: 3 match_filename_def filename_matches_def optional_def lit_def
          one_of_def is_sep_def first_match_append)
  next
    case 4
    show ?thesis using bm
      by (simp add: 4 match_filename_def filename_matches_def optional_def lit_def
          one_of_def is_sep_def first_match_append)
  qed
qed

lemma match_task_grammar:
  assumes "task \<noteq> []" and "list_all is_lower task" and "list_all is_digit ds"
  shows "match_task (task @ ds) = Some (task, ds)"
proof -
  have nl: "case ds of [] \<Rightarrow> True | y # ys' \<Rightarrow> \<not> is_lower y"
    using assms(3) digit_not_lower by (cases ds) auto
  have d: "first_match (List.bind (greedy 0 is_digit (ds @ [])) (\<lambda>(d, r'). [(task, d)]))
             = Some (task, ds)"
    by (rule step_greedy) (use assms in \<open>auto simp: first_match_def\<close>)
  have "first_match (List.bind (greedy 1 is_lower (task @ ds)) (\<lambda>(t, r).
          List.bind (greedy 0 is_digit r) (\<lambda>(d, r'). [(t, d)]))) = Some (task, ds)"
    by (rule step_greedy) (use assms nl d in \<open>auto simp: Suc_le_eq\<close>)
  then show ?thesis by (simp add: match_task_def task_matches_def)
qed

lemmas parser_defs =
  parse_filename_def parse_fname_def first_match_def strip_extension_def str_lower_def
  lower_char_def match_filename_def filename_matches_def optional_def lit_def one_of_def
  greedy_def is_sep_def is_alnum_def is_lower_def is_digit_def match_task_def
  task_matches_def str_upper_def upper_char_def int_of_digits_def digit_value_def upt_rec

text \<open>
  C6, as amended. A name already in lower case and without its extension, made of an
  optional prefix \<open>sub\<close> with an optional separator after it, a subject token of lower
  case letters and digits, a separator, a task of lower case letters with optional
  digits after it, a separator and \<open>raw\<close>, is parsed to the subject in upper case, the
  task without its digits, and the run: the number the digits spell, or no run at all
  when there are no digits. Without the prefix the subject token must not itself begin
  with \<open>sub\<close>. In particular \<open>sub-brs0170_task12-raw.fif\<close> gives subject \<open>BRS0170\<close>, task
  \<open>task\<close> and run 12.
\<close>

theorem parse_fname_grammar:
  assumes "pre \<in> {[], ''sub'', ''sub-'', ''sub_''}"
    and "subj \<noteq> []" and "list_all is_alnum subj" and "is_sep s1" and "task \<noteq> []"
    and "list_all is_lower task" and "list_all is_digit ds" and "is_sep s2"
    and "pre = [] \<longrightarrow> \<not> prefix ''sub'' subj"
  shows "parse_fname (pre @ subj @ s1 # task @ ds @ s2 # ''raw'' @ rest)
           = Some (str_upper subj, task, if ds = [] then None else Some (int_of_digits ds))
         \<and> parse_filename ''sub-brs0170_task12-raw.fif'' = Some (''BRS0170'', ''task'', Some 12)"
proof
  show "parse_fname (pre @ subj @ s1 # task @ ds @ s2 # ''raw'' @ rest)
           = Some (str_upper subj, task, if ds = [] then None else Some (int_of_digits ds))"
    using match_filename_grammar[OF assms, of rest] match_task_grammar[OF assms(5-7)]
    by (simp add: parse_fname_def)
  show "parse_filename ''sub-brs0170_task12-raw.fif'' = Some (''BRS0170'', ''task'', Some 12)"
    by (simp add: parser_defs)
qed

theorem parse_fname_grammar_witness:
  "parse_fname (''sub'' @ ''ab1'' @ CHR ''_'' # ''rest'' @ ''07'' @ CHR ''-'' # ''raw'' @ ''_tsss'')
     = Some (''AB1'', ''rest'', Some 7)"
proof -
  have "parse_fname (''sub'' @ ''ab1'' @ CHR ''_'' # ''rest'' @ ''07'' @ CHR ''-'' # ''raw'' @ ''_tsss'')
          = Some (str_upper ''ab1'', ''rest'', if ''07'' = [] then None else Some (int_of_digits ''07''))"
    using parse_fname_grammar[of "''sub''" "''ab1''" "CHR ''_''" "''rest''" "''07''" "CHR ''-''" "''_tsss''"]
    by (simp add: is_sep_def is_alnum_def is_lower_def is_digit_def)
  then show ?thesis
    by (simp add: str_upper_def upper_char_def int_of_digits_def digit_value_def)
qed

text \<open>
  C6 as stated fails: \<open>subject01_rest-raw.fif\<close> has no prefix and separator before its
  subject token \<open>subject01\<close>, yet the parser takes the first three letters of the token
  for the prefix and returns the subject \<open>JECT01\<close>.
\<close>

theorem parse_fname_sub_counterexample:
  "strip_extension ''subject01_rest-raw.fif'' = ''subject01'' @ CHR ''_'' # ''rest'' @ CHR ''-'' # ''raw''
   \<and> list_all is_alnum ''subject01'' \<and> list_all is_lower ''rest''
   \<and> parse_filename ''subject01_rest-raw.fif'' = Some (''JECT01'', ''rest'', None)
   \<and> ''JECT01'' \<noteq> str_upper ''subject01''"
  by (simp add: parser_defs)

section \<open>Properties of the subject identifiers\<close>

text \<open>
  C5: the directory name \<open>sub-BRS-0170\<close> is normalised to \<open>BRS0170\<close> by the pre-check and
  to \<open>BRS-0170\<close> by the session loop, which keeps the dash.
\<close>

theorem subject_ids_differ:
  "normalize_subject_id ''sub-BRS-0170'' = ''BRS0170''
   \<and> dest_subject_id ''sub-BRS-0170'' = ''BRS-0170''"
  by (simp add: normalize_subject_id_def strip_sub_prefix_def str_lower_def lower_char_def
      is_sep_def str_upper_def upper_char_def dest_subject_id_def)

section \<open>Properties of the pre-check\<close>












section \<open>Properties of the session loop\<close>

lemma copy_files_eq:
  "copy_files items dest f =
     (\<lambda>p. case f p of Some n \<Rightarrow> Some n
            | None \<Rightarrow> map_of (map (\<lambda>nc. (dest @ [fst nc], RegularFile (snd nc))) (session_files items)) p)"
proof (induction items dest f rule: copy_files.induct)
  case (1 dest f)
  show ?case by (rule ext) (simp split: option.splits)
next
  case (2 name content items dest f)
  show ?case
    unfolding copy_files.simps 2
    by (rule ext) (auto split: option.splits)
next
  case (3 name sub items dest f)
  then show ?case by (simp cong: option.case_cong)
qed

text \<open>
  C7. The copy loop leaves every path that exists before it as it is; a path that did
  not exist holds afterwards the session's file of that name, and nothing when the
  session has no such file; and a second run of the loop changes nothing.
\<close>

theorem copy_files_additive:
  "(\<forall>p. f p \<noteq> None \<longrightarrow> copy_files items dest f p = f p)
   \<and> (\<forall>p. f p = None \<longrightarrow> copy_files items dest f p
          = map_of (map (\<lambda>nc. (dest @ [fst nc], RegularFile (snd nc))) (session_files items)) p)
   \<and> copy_files items dest (copy_files items dest f) = copy_files items dest f"
proof (intro conjI allI impI)
  fix p assume "f p \<noteq> None"
  then show "copy_files items dest f p = f p" by (auto simp: copy_files_eq)
next
  fix p assume "f p = None"
  then show "copy_files items dest f p
      = map_of (map (\<lambda>nc. (dest @ [fst nc], RegularFile (snd nc))) (session_files items)) p"
    by (simp add: copy_files_eq)
next
  show "copy_files items dest (copy_files items dest f) = copy_files items dest f"
    by (rule ext) (simp add: copy_files_eq split: option.splits)
qed

theorem copy_files_additive_witness:
  "copy_files [(''a.fif'', File ''new''), (''b.fif'', File ''rec'')] [''raw'']
      ((\<lambda>p. None)([''raw'', ''a.fif''] \<mapsto> RegularFile ''old'')) [''raw'', ''a.fif'']
     = Some (RegularFile ''old'')
   \<and> copy_files [(''a.fif'', File ''new''), (''b.fif'', File ''rec'')] [''raw'']
      ((\<lambda>p. None)([''raw'', ''a.fif''] \<mapsto> RegularFile ''old'')) [''raw'', ''b.fif'']
     = Some (RegularFile ''rec'')"
  using copy_files_additive[of "(\<lambda>p. None)([''raw'', ''a.fif''] \<mapsto> RegularFile ''old'')"
      "[(''a.fif'', File ''new''), (''b.fif'', File ''rec'')]" "[''raw'']"]
  by simp

lemma convert_loop_fs:
  "fs (snd (convert_loop loads writes sess files st)) = fs (snd st)"
  by (induction loads writes sess files st rule: convert_loop.induct)
    (auto split: option.splits)

lemma convert_loop_calls:
  "prefix (calls (snd st)) (calls (snd (convert_loop loads writes sess files st)))"
proof (induction files arbitrary: st)
  case Nil
  then show ?case by simp
next
  case (Cons name rest)
  obtain sid w where st: "st = (sid, w)" by (cases st)
  have H: "prefix xs (calls (snd (convert_loop loads writes sess rest st')))"
    if "prefix xs (calls (snd st'))" for xs st'
    using that Cons.IH[of st'] prefix_order.trans by blast
  show ?case
    by (auto simp: st split: option.splits intro!: H)
qed

lemma convert_loop_subject:
  "fst (convert_loop loads writes sess files st) =
     (let parsed = filter (\<lambda>n. loads n \<and> match_filename (strip_extension n) \<noteq> None) files
      in if parsed = [] then fst st
         else str_upper (fst (the (match_filename (strip_extension (last parsed))))))"
  by (induction loads writes sess files st rule: convert_loop.induct)
    (auto split: option.splits simp: Let_def)

lemma suffix_fif: "suffix ''.fif'' n = prefix ''fif.'' (rev n)"
  by (simp add: suffix_to_prefix)

text \<open>
  C4, as amended. In a session processed with conversion, where at least one recording
  both loads and has a name the pattern matches, the relocation and the extractor call
  are addressed with the subject token, in upper case, of the last such recording; the
  raw copy is addressed with the identifier computed from the name of the subject
  directory.
\<close>

theorem conversion_reassigns_subject_id:
  assumes "snd session = Dir items"
    and "meg_files = filter (\<lambda>n. suffix ''.fif'' n) (map fst items)"
    and "parsed = filter (\<lambda>n. loads n \<and> match_filename (strip_extension n) \<noteq> None) meg_files"
    and "parsed \<noteq> []"
    and "match_filename (strip_extension (last parsed)) = Some (g1, task_run_str)"
  shows "(\<exists>ws. calls (process_session loads writes subject_dir_name project_name True session w)
            = calls w @ ws
              @ [Relocate (reconstructed_path project_name
                            @ [''sub-'' @ str_upper g1, ''ses-20'' @ fst session]),
                 RunExtractor (extractor_cmd project_name (str_upper g1) (''20'' @ fst session))])
         \<and> fs (process_session loads writes subject_dir_name project_name True session w)
            = ensure_participants_tsv project_name
                (copy_files items
                   (raw_path project_name
                     @ [''sub-'' @ dest_subject_id subject_dir_name, ''ses-20'' @ fst session])
                   (mkdir_p
                     (raw_path project_name
                       @ [''sub-'' @ dest_subject_id subject_dir_name, ''ses-20'' @ fst session])
                     (fs w)))"
proof -
  define rawdir where "rawdir = raw_path project_name
      @ [''sub-'' @ dest_subject_id subject_dir_name, ''ses-20'' @ fst session]"
  define w1 where "w1 = w\<lparr>fs := copy_files items rawdir (mkdir_p rawdir (fs w))\<rparr>"
  define st where "st = convert_loop loads writes (''20'' @ fst session) meg_files
      (dest_subject_id subject_dir_name, w1)"
  have ne: "meg_files \<noteq> []" using assms(3,4) by auto
  have sid: "fst st = str_upper g1"
    using assms(3,4,5) by (simp add: st_def convert_loop_subject Let_def)
  have f: "fs (snd st) = fs w1" by (simp add: st_def convert_loop_fs)
  obtain ws where ws: "calls (snd st) = calls w @ ws"
    using convert_loop_calls[of "(dest_subject_id subject_dir_name, w1)" loads writes
        "''20'' @ fst session" meg_files]
    by (auto simp: st_def w1_def prefix_def)
  have ps: "process_session loads writes subject_dir_name project_name True session w
      = (snd st)\<lparr>fs := ensure_participants_tsv project_name (fs (snd st)),
           calls := calls (snd st) @
             [Relocate (reconstructed_path project_name
                        @ [''sub-'' @ fst st, ''ses-'' @ ''20'' @ fst session]),
              RunExtractor (extractor_cmd project_name (fst st) (''20'' @ fst session))]\<rparr>"
    using ne assms(1,2)
    by (simp add: process_session_def Let_def st_def w1_def rawdir_def)
  show ?thesis
    using ws by (simp add: ps sid f w1_def rawdir_def)
qed

lemmas session_defs =
  process_session_def Let_def suffix_fif dest_subject_id_def str_upper_def upper_char_def
  reconstructed_path_def reconstructed_base_def raw_path_def extractor_cmd_def
  empty_world_def

theorem conversion_reassigns_subject_id_witness:
  "(\<exists>ws. calls (process_session (\<lambda>n. True) (\<lambda>n. True) ''sub-y2'' ''proj'' True
            (''240101'', Dir [(''sub-xy2_rest-raw.fif'', File [])]) empty_world)
          = calls empty_world @ ws
            @ [Relocate (reconstructed_path ''proj'' @ [''sub-XY2'', ''ses-20240101'']),
               RunExtractor (extractor_cmd ''proj'' ''XY2'' ''20240101'')])
   \<and> dest_subject_id ''sub-y2'' = ''Y2''"
proof -
  have m: "match_filename (strip_extension ''sub-xy2_rest-raw.fif'') = Some (''xy2'', ''rest'')"
    by (simp add: parser_defs)
  have "str_upper ''xy2'' = ''XY2''" by (simp add: str_upper_def upper_char_def)
  then show ?thesis
    using conversion_reassigns_subject_id[of "(''240101'', Dir [(''sub-xy2_rest-raw.fif'', File [])])"
        "[(''sub-xy2_rest-raw.fif'', File [])]" "[''sub-xy2_rest-raw.fif'']"
        "[''sub-xy2_rest-raw.fif'']" "\<lambda>n. True" "''xy2''" "''rest''" "\<lambda>n. True" "''sub-y2''"
        "''proj''" empty_world] m
    by (simp add: suffix_fif dest_subject_id_def str_upper_def upper_char_def)
qed

text \<open>
  C4 as stated fails: the one recording of this session has a name the pattern matches
  (token \<open>xy2\<close>), the subject passes the pre-check, but the recording does not load, so
  the relocation and the extractor call keep the identifier \<open>Y2\<close> of the directory.
\<close>

theorem conversion_load_failure_counterexample:
  "pre_check ''sub-y2'' [(''240101'', Dir [(''sub-xy2_rest-raw.fif'', File [])])] = None
   \<and> filter (\<lambda>n. suffix ''.fif'' n) (map fst [(''sub-xy2_rest-raw.fif'', File [])])
       = [''sub-xy2_rest-raw.fif'']
   \<and> match_filename (strip_extension ''sub-xy2_rest-raw.fif'') = Some (''xy2'', ''rest'')
   \<and> calls (process_session (\<lambda>n. False) (\<lambda>n. True) ''sub-y2'' ''proj'' True
            (''240101'', Dir [(''sub-xy2_rest-raw.fif'', File [])]) empty_world)
       = [Relocate (reconstructed_path ''proj'' @ [''sub-Y2'', ''ses-20240101'']),
          RunExtractor (extractor_cmd ''proj'' ''Y2'' ''20240101'')]"
proof (intro conjI)
  show "pre_check ''sub-y2'' [(''240101'', Dir [(''sub-xy2_rest-raw.fif'', File [])])] = None"
    by (simp add: path_suffix_def path_stem_def rfind_dot_def str_lower_def lower_char_def
        normalize_subject_id_def strip_sub_prefix_def is_sep_def str_upper_def upper_char_def)
  show "filter (\<lambda>n. suffix ''.fif'' n) (map fst [(''sub-xy2_rest-raw.fif'', File [])])
       = [''sub-xy2_rest-raw.fif'']"
    by (simp add: suffix_fif)
  show "match_filename (strip_extension ''sub-xy2_rest-raw.fif'') = Some (''xy2'', ''rest'')"
    by (simp add: parser_defs)
  show "calls (process_session (\<lambda>n. False) (\<lambda>n. True) ''sub-y2'' ''proj'' True
            (''240101'', Dir [(''sub-xy2_rest-raw.fif'', File [])]) empty_world)
       = [Relocate (reconstructed_path ''proj'' @ [''sub-Y2'', ''ses-20240101'']),
          RunExtractor (extractor_cmd ''proj'' ''Y2'' ''20240101'')]"
    by (simp add: session_defs)
qed

section \<open>Properties of the merge\<close>

lemma update_loop_no_match:
  "list_all (\<lambda>r. \<not> row_matches subject_id session_id r) rows \<Longrightarrow>
   update_loop subject_id session_id sex weight age rows = (rows, False)"
  by (induction rows) simp_all

lemma update_loop_first_match:
  assumes "i < length rows" and "row_matches subject_id session_id (rows ! i)"
    and "\<forall>j<i. \<not> row_matches subject_id session_id (rows ! j)"
  shows "update_loop subject_id session_id sex weight age rows
           = (rows[i := overwrite_row session_id sex weight age (rows ! i)], True)"
  using assms
proof (induction rows arbitrary: i)
  case Nil
  then show ?case by simp
next
  case (Cons r rows)
  show ?case
  proof (cases i)
    case 0
    then show ?thesis using Cons.prems by simp
  next
    case (Suc k)
    have nr: "\<not> row_matches subject_id session_id r" using Cons.prems(3) Suc by auto
    have "\<forall>j<k. \<not> row_matches subject_id session_id (rows ! j)"
      using Cons.prems(3) Suc by auto
    then have "update_loop subject_id session_id sex weight age rows
           = (rows[k := overwrite_row session_id sex weight age (rows ! k)], True)"
      using Cons.IH[of k] Cons.prems(1,2) Suc by simp
    then show ?thesis using nr Suc by simp
  qed
qed

lemma map_of_overwrite_row:
  "map_of (overwrite_row session_id sex weight age row)
     = (map_of row)(''session_id'' \<mapsto> Str session_id, ''sex'' \<mapsto> sex,
                    ''weight'' \<mapsto> weight, ''age'' \<mapsto> age)"
  by (simp add: overwrite_row_def update_conv')

lemma new_row_eq:
  "new_row subject_id session_id sex weight age
     = [(''participant_id'', Str subject_id), (''session_id'', Str session_id),
        (''sex'', sex), (''weight'', weight), (''age'', age)]"
  by (simp add: new_row_def headers_def)

text \<open>
  C1. A row matches when its participant\_id is the new one and its session\_id is the
  new one, or is \<open>n/a\<close> while the new one is not. When \<open>i\<close> is the first row that
  matches, the merge replaces row \<open>i\<close> by the same row with session\_id, sex, weight and
  age set to the new values (every other key of the row, participant\_id among them, is
  as before), and leaves every other row and the number of rows as they are, also when
  later rows match. When no row matches, the merge appends one row that holds the five
  fields of the new record.
\<close>

theorem merge_rows_first_match:
  "(\<forall>i. i < length rows \<and> row_matches subject_id session_id (rows ! i)
         \<and> (\<forall>j<i. \<not> row_matches subject_id session_id (rows ! j))
        \<longrightarrow> merge_rows subject_id session_id sex weight age rows
              = rows[i := overwrite_row session_id sex weight age (rows ! i)])
   \<and> (\<forall>row. map_of (overwrite_row session_id sex weight age row)
          = (map_of row)(''session_id'' \<mapsto> Str session_id, ''sex'' \<mapsto> sex,
                         ''weight'' \<mapsto> weight, ''age'' \<mapsto> age))
   \<and> ((\<forall>row \<in> set rows. \<not> row_matches subject_id session_id row)
        \<longrightarrow> merge_rows subject_id session_id sex weight age rows
              = rows @ [new_row subject_id session_id sex weight age])
   \<and> new_row subject_id session_id sex weight age
        = [(''participant_id'', Str subject_id), (''session_id'', Str session_id),
           (''sex'', sex), (''weight'', weight), (''age'', age)]
   \<and> (\<forall>row. row_matches subject_id session_id row
        \<longleftrightarrow> row_get row ''participant_id'' [] = Str subject_id
            \<and> (row_get row ''session_id'' [] = Str session_id
                \<or> (row_get row ''session_id'' [] = Str ''n/a'' \<and> session_id \<noteq> ''n/a'')))"
proof (intro conjI allI impI)
  fix i
  assume "i < length rows \<and> row_matches subject_id session_id (rows ! i)
         \<and> (\<forall>j<i. \<not> row_matches subject_id session_id (rows ! j))"
  then show "merge_rows subject_id session_id sex weight age rows
              = rows[i := overwrite_row session_id sex weight age (rows ! i)]"
    using update_loop_first_match[of i rows subject_id session_id sex weight age]
    by (simp add: merge_rows_def)
next
  fix row
  show "map_of (overwrite_row session_id sex weight age row)
          = (map_of row)(''session_id'' \<mapsto> Str session_id, ''sex'' \<mapsto> sex,
                         ''weight'' \<mapsto> weight, ''age'' \<mapsto> age)"
    by (rule map_of_overwrite_row)
next
  assume "\<forall>row \<in> set rows. \<not> row_matches subject_id session_id row"
  then have "list_all (\<lambda>r. \<not> row_matches subject_id session_id r) rows"
    by (simp add: list_all_iff)
  then show "merge_rows subject_id session_id sex weight age rows
              = rows @ [new_row subject_id session_id sex weight age]"
    by (simp add: merge_rows_def update_loop_no_match)
next
  show "new_row subject_id session_id sex weight age
        = [(''participant_id'', Str subject_id), (''session_id'', Str session_id),
           (''sex'', sex), (''weight'', weight), (''age'', age)]"
    by (rule new_row_eq)
next
  fix row
  show "row_matches subject_id session_id row
        \<longleftrightarrow> row_get row ''participant_id'' [] = Str subject_id
            \<and> (row_get row ''session_id'' [] = Str session_id
                \<or> (row_get row ''session_id'' [] = Str ''n/a'' \<and> session_id \<noteq> ''n/a''))"
    by (simp add: row_matches_def Let_def)
qed

theorem merge_rows_first_match_witness:
  "merge_rows ''sub-P'' ''ses-2'' (Str ''M'') (Str ''70'') (Str ''30'')
     [[(''participant_id'', Str ''sub-Q''), (''session_id'', Str ''ses-2'')],
      [(''participant_id'', Str ''sub-P''), (''session_id'', Str ''n/a''), (''sex'', Str ''F'')],
      [(''participant_id'', Str ''sub-P''), (''session_id'', Str ''ses-2''), (''sex'', Str ''F'')]]
   = [[(''participant_id'', Str ''sub-Q''), (''session_id'', Str ''ses-2'')],
      [(''participant_id'', Str ''sub-P''), (''session_id'', Str ''ses-2''), (''sex'', Str ''M''),
       (''weight'', Str ''70''), (''age'', Str ''30'')],
      [(''participant_id'', Str ''sub-P''), (''session_id'', Str ''ses-2''), (''sex'', Str ''F'')]]
   \<and> merge_rows ''sub-R'' ''ses-2'' (Str ''M'') (Str ''70'') (Str ''30'')
     [[(''participant_id'', Str ''sub-Q''), (''session_id'', Str ''ses-2'')]]
   = [[(''participant_id'', Str ''sub-Q''), (''session_id'', Str ''ses-2'')],
      [(''participant_id'', Str ''sub-R''), (''session_id'', Str ''ses-2''), (''sex'', Str ''M''),
       (''weight'', Str ''70''), (''age'', Str ''30'')]]"
proof -
  note t1 = merge_rows_first_match[of
      "[[(''participant_id'', Str ''sub-Q''), (''session_id'', Str ''ses-2'')],
      [(''participant_id'', Str ''sub-P''), (''session_id'', Str ''n/a''), (''sex'', Str ''F'')],
      [(''participant_id'', Str ''sub-P''), (''session_id'', Str ''ses-2''), (''sex'', Str ''F'')]]"
      "''sub-P''" "''ses-2''" "Str ''M''" "Str ''70''" "Str ''30''"]
  note t2 = merge_rows_first_match[of
      "[[(''participant_id'', Str ''sub-Q''), (''session_id'', Str ''ses-2'')]]"
      "''sub-R''" "''ses-2''" "Str ''M''" "Str ''70''" "Str ''30''"]
  have a: "merge_rows ''sub-P'' ''ses-2'' (Str ''M'') (Str ''70'') (Str ''30'')
     [[(''participant_id'', Str ''sub-Q''), (''session_id'', Str ''ses-2'')],
      [(''participant_id'', Str ''sub-P''), (''session_id'', Str ''n/a''), (''sex'', Str ''F'')],
      [(''participant_id'', Str ''sub-P''), (''session_id'', Str ''ses-2''), (''sex'', Str ''F'')]]
   = [[(''participant_id'', Str ''sub-Q''), (''session_id'', Str ''ses-2'')],
      [(''participant_id'', Str ''sub-P''), (''session_id'', Str ''ses-2''), (''sex'', Str ''M''),
       (''weight'', Str ''70''), (''age'', Str ''30'')],
      [(''participant_id'', Str ''sub-P''), (''session_id'', Str ''ses-2''), (''sex'', Str ''F'')]]"
    using t1[THEN conjunct1, THEN spec, of 1]
    by (simp add: row_matches_def row_get_def overwrite_row_def less_Suc_eq)
  have b: "merge_rows ''sub-R'' ''ses-2'' (Str ''M'') (Str ''70'') (Str ''30'')
     [[(''participant_id'', Str ''sub-Q''), (''session_id'', Str ''ses-2'')]]
   = [[(''participant_id'', Str ''sub-Q''), (''session_id'', Str ''ses-2'')],
      [(''participant_id'', Str ''sub-R''), (''session_id'', Str ''ses-2''), (''sex'', Str ''M''),
       (''weight'', Str ''70''), (''age'', Str ''30'')]]"
    using t2[THEN conjunct2, THEN conjunct2, THEN conjunct1]
    by (simp add: row_matches_def row_get_def new_row_eq)
  show ?thesis using a b by simp
qed

section \<open>Properties of the field extraction\<close>




section \<open>Properties of the age\<close>


















section \<open>Properties of the table file\<close>

lemma parse_in_field:
  "list_all (\<lambda>c. c \<noteq> TAB \<and> c \<noteq> LF) t \<Longrightarrow>
   csv_parse IN_FIELD saved cur (t @ rest) = csv_parse IN_FIELD saved (rev t @ cur) rest"
  by (induction t arbitrary: cur) simp_all

lemma parse_in_quoted:
  "csv_parse IN_QUOTED_FIELD saved cur
     (concat (map (\<lambda>c. if c = QUOTE then [QUOTE, QUOTE] else [c]) t) @ rest)
   = csv_parse IN_QUOTED_FIELD saved (rev t @ cur) rest"
  by (induction t arbitrary: cur) simp_all

lemma not_needs_quotes:
  "\<not> needs_quotes t \<Longrightarrow> list_all (\<lambda>c. c \<noteq> TAB \<and> c \<noteq> LF \<and> c \<noteq> QUOTE \<and> c \<noteq> CR) t"
  by (induction t) (auto simp: needs_quotes_def)

lemma parse_field_tab:
  "csv_parse START_FIELD saved cur (write_field (Str t) @ TAB # rest)
   = csv_parse START_FIELD (t # saved) [] rest"
proof (cases "needs_quotes t")
  case True
  then show ?thesis by (simp add: write_field_def parse_in_quoted)
next
  case False
  note nq = not_needs_quotes[OF False]
  show ?thesis
  proof (cases t)
    case Nil
    then show ?thesis using False by (simp add: write_field_def)
  next
    case (Cons c cs)
    then have "list_all (\<lambda>c. c \<noteq> TAB \<and> c \<noteq> LF) cs" and "c \<noteq> TAB" "c \<noteq> LF" "c \<noteq> QUOTE"
      using nq by (auto simp: list_all_iff)
    then show ?thesis using False Cons by (simp add: write_field_def parse_in_field)
  qed
qed

lemma parse_field_lf:
  "csv_parse START_FIELD saved cur (write_field (Str t) @ LF # rest)
   = rev (t # saved) # csv_parse START_RECORD [] [] rest"
proof (cases "needs_quotes t")
  case True
  then show ?thesis by (simp add: write_field_def parse_in_quoted)
next
  case False
  note nq = not_needs_quotes[OF False]
  show ?thesis
  proof (cases t)
    case Nil
    then show ?thesis using False by (simp add: write_field_def)
  next
    case (Cons c cs)
    then have "list_all (\<lambda>c. c \<noteq> TAB \<and> c \<noteq> LF) cs" and "c \<noteq> TAB" "c \<noteq> LF" "c \<noteq> QUOTE"
      using nq by (auto simp: list_all_iff)
    then show ?thesis using False Cons by (simp add: write_field_def parse_in_field)
  qed
qed

lemma parse_record:
  "ts \<noteq> [] \<Longrightarrow>
   csv_parse START_FIELD saved cur (join_tab (map (\<lambda>t. write_field (Str t)) ts) @ LF # rest)
   = (rev saved @ ts) # csv_parse START_RECORD [] [] rest"
proof (induction ts arbitrary: saved cur)
  case Nil
  then show ?case by simp
next
  case (Cons t ts)
  show ?case
  proof (cases ts)
    case Nil
    then show ?thesis by (simp add: parse_field_lf)
  next
    case (Cons u us)
    then show ?thesis using Cons.IH[of "t # saved" "[]"] by (simp add: parse_field_tab)
  qed
qed

lemma write_field_head:
  "write_field (Str t) @ TAB # r = c # cs \<Longrightarrow> c \<noteq> LF"
proof (cases "needs_quotes t")
  case True
  assume "write_field (Str t) @ TAB # r = c # cs"
  then show ?thesis using True by (auto simp: write_field_def)
next
  case False
  assume a: "write_field (Str t) @ TAB # r = c # cs"
  note nq = not_needs_quotes[OF False]
  show ?thesis using a nq False by (cases t) (auto simp: write_field_def)
qed

lemma parse_start_record:
  "c \<noteq> LF \<Longrightarrow> csv_parse START_RECORD [] [] (c # cs) = csv_parse START_FIELD [] [] (c # cs)"
  by simp

lemma parse_record_start:
  assumes "2 \<le> length ts"
  shows "csv_parse START_RECORD [] [] (join_tab (map (\<lambda>t. write_field (Str t)) ts) @ LF # rest)
   = ts # csv_parse START_RECORD [] [] rest"
proof -
  obtain t u us where ts: "ts = t # u # us"
    using assms by (cases ts; cases "tl ts") auto
  obtain c cs where e: "join_tab (map (\<lambda>t. write_field (Str t)) ts) @ LF # rest = c # cs"
    by (cases "join_tab (map (\<lambda>t. write_field (Str t)) ts) @ LF # rest") auto
  then have "write_field (Str t) @ TAB # (join_tab (map (\<lambda>t. write_field (Str t)) (u # us)) @ LF # rest) = c # cs"
    by (simp add: ts)
  then have "c \<noteq> LF" by (rule write_field_head)
  then have "csv_parse START_RECORD [] [] (c # cs) = csv_parse START_FIELD [] [] (c # cs)"
    by (rule parse_start_record)
  then show ?thesis
    using parse_record[of ts "[]" "[]" rest] ts e by simp
qed

lemma csv_reader_rows:
  "list_all (\<lambda>ts. 2 \<le> length ts) rows \<Longrightarrow>
   csv_reader (concat (map (\<lambda>ts. join_tab (map (\<lambda>t. write_field (Str t)) ts) @ [LF]) rows)) = rows"
proof (induction rows)
  case Nil
  then show ?case by (simp add: csv_reader_def)
next
  case (Cons ts rows)
  then show ?case
    using parse_record_start[of ts "concat (map (\<lambda>ts. join_tab (map (\<lambda>t. write_field (Str t)) ts) @ [LF]) rows)"]
    by (simp add: csv_reader_def)
qed

lemma un_Cons: "c \<noteq> CR \<Longrightarrow> universal_newlines (c # xs) = c # universal_newlines xs"
  by (cases xs) simp_all

lemma un_CR_Cons:
  "xs = [] \<or> hd xs \<noteq> LF \<Longrightarrow> universal_newlines (CR # xs) = LF # universal_newlines xs"
  by (cases xs) auto

lemma un_append:
  "xs = [] \<or> last xs \<noteq> CR \<Longrightarrow>
   universal_newlines (xs @ ys) = universal_newlines xs @ universal_newlines ys"
proof (induction xs rule: universal_newlines.induct)
  case 1
  then show ?case by simp
next
  case (2 c)
  then show ?case by (simp add: un_Cons)
next
  case (3 c d cs)
  then show ?case by (cases cs) (auto simp: un_Cons)
qed

lemma universal_newlines_cr_free:
  "CR \<notin> set xs \<Longrightarrow> universal_newlines xs = xs"
  by (induction xs rule: universal_newlines.induct) auto

lemma universal_newlines_no_cr: "CR \<notin> set (universal_newlines xs)"
  by (induction xs rule: universal_newlines.induct) auto

lemma needs_quotes_un: "needs_quotes (universal_newlines t) = needs_quotes t"
  by (induction t rule: universal_newlines.induct) (auto simp: needs_quotes_def)

lemma un_escaped:
  "universal_newlines (concat (map (\<lambda>c. if c = QUOTE then [QUOTE, QUOTE] else [c]) t) @ [QUOTE])
   = concat (map (\<lambda>c. if c = QUOTE then [QUOTE, QUOTE] else [c]) (universal_newlines t)) @ [QUOTE]"
proof (induction t rule: universal_newlines.induct)
  case 1
  then show ?case by simp
next
  case (2 c)
  then show ?case by simp
next
  case (3 c d cs)
  then show ?case by (auto simp: un_Cons un_CR_Cons)
qed

lemma un_write_field:
  "universal_newlines (write_field v) = write_field (Str (universal_newlines (cell_text v)))"
proof (cases v)
  case NoneValue
  then show ?thesis by (simp add: write_field_def cell_text_def needs_quotes_def)
next
  case (Str t)
  show ?thesis
  proof (cases "needs_quotes t")
    case True
    then show ?thesis
      using un_escaped[of t] by (simp add: Str write_field_def cell_text_def needs_quotes_un un_Cons)
  next
    case False
    then have "CR \<notin> set t" using not_needs_quotes[OF False] by (auto simp: list_all_iff)
    then show ?thesis using False
      by (simp add: Str write_field_def cell_text_def universal_newlines_cr_free)
  qed
qed

lemma write_field_last: "write_field v = [] \<or> last (write_field v) \<noteq> CR"
proof (cases v)
  case NoneValue
  then show ?thesis by (simp add: write_field_def)
next
  case (Str t)
  show ?thesis
  proof (cases "needs_quotes t")
    case True
    then show ?thesis by (simp add: Str write_field_def)
  next
    case False
    then have "CR \<notin> set t" using not_needs_quotes[OF False] by (auto simp: list_all_iff)
    then have "t = [] \<or> last t \<noteq> CR" by (metis last_in_set)
    then show ?thesis using False by (auto simp: Str write_field_def)
  qed
qed

lemma join_tab_last:
  "join_tab (map write_field cells) = [] \<or> last (join_tab (map write_field cells)) \<noteq> CR"
proof (induction cells)
  case Nil
  then show ?case by simp
next
  case (Cons v cells)
  show ?case
  proof (cases cells)
    case Nil
    then show ?thesis using write_field_last[of v] by simp
  next
    case (Cons u us)
    then show ?thesis using Cons.IH by auto
  qed
qed

lemma un_join_tab:
  "universal_newlines (join_tab (map write_field cells))
   = join_tab (map (\<lambda>v. write_field (Str (universal_newlines (cell_text v)))) cells)"
proof (induction cells)
  case Nil
  then show ?case by simp
next
  case (Cons v cells)
  show ?case
  proof (cases cells)
    case Nil
    then show ?thesis by (simp add: un_write_field)
  next
    case (Cons u us)
    have "universal_newlines (write_field v @ TAB # join_tab (map write_field (u # us)))
        = universal_newlines (write_field v)
          @ universal_newlines (TAB # join_tab (map write_field (u # us)))"
      by (rule un_append[OF write_field_last])
    then show ?thesis using Cons.IH Cons by (simp add: un_Cons un_write_field)
  qed
qed

lemma universal_newlines_rows:
  "universal_newlines (concat (map write_row rows))
   = concat (map (\<lambda>cells.
       join_tab (map (\<lambda>v. write_field (Str (universal_newlines (cell_text v)))) cells) @ [LF]) rows)"
proof (induction rows)
  case Nil
  then show ?case by simp
next
  case (Cons cells rows)
  have "universal_newlines (concat (map write_row (cells # rows)))
      = universal_newlines (join_tab (map write_field cells) @ CR # LF # concat (map write_row rows))"
    by (simp add: write_row_def)
  also have "\<dots> = universal_newlines (join_tab (map write_field cells))
      @ universal_newlines (CR # LF # concat (map write_row rows))"
    by (rule un_append[OF join_tab_last])
  also have "\<dots> = join_tab (map (\<lambda>v. write_field (Str (universal_newlines (cell_text v)))) cells)
      @ LF # universal_newlines (concat (map write_row rows))"
    by (simp add: un_join_tab)
  finally show ?case using Cons by simp
qed

lemma read_back:
  assumes "list_all (\<lambda>cells. 2 \<le> length cells) rows"
  shows "csv_reader (universal_newlines (concat (map write_row rows)))
         = map (map (\<lambda>v. universal_newlines (cell_text v))) rows"
proof -
  have e: "(\<lambda>cells. join_tab (map (\<lambda>v. write_field (Str (universal_newlines (cell_text v)))) cells) @ [LF])
      = (\<lambda>ts. join_tab (map (\<lambda>t. write_field (Str t)) ts) @ [LF])
        \<circ> map (\<lambda>v. universal_newlines (cell_text v))"
    by (auto simp: comp_def)
  have "csv_reader (concat (map (\<lambda>ts. join_tab (map (\<lambda>t. write_field (Str t)) ts) @ [LF])
          (map (map (\<lambda>v. universal_newlines (cell_text v))) rows)))
        = map (map (\<lambda>v. universal_newlines (cell_text v))) rows"
    by (rule csv_reader_rows) (use assms in \<open>simp add: list_all_iff\<close>)
  then show ?thesis
    by (simp only: universal_newlines_rows e map_map)
qed

lemma row_get_update:
  "row_get (AList.update k v r) k' d = (if k' = k then v else row_get r k' d)"
  by (simp add: row_get_def update_conv')

lemma merge_rows_Nil:
  "merge_rows s e sex w a [] = [new_row s e sex w a]"
  by (simp add: merge_rows_def)

lemma merge_rows_Cons:
  "merge_rows s e sex w a (r # rs)
     = (if row_matches s e r then overwrite_row e sex w a r # rs
        else r # merge_rows s e sex w a rs)"
  by (simp add: merge_rows_def split: prod.splits)

lemma reread_eq:
  "reread r =
     [(''participant_id'', Str (universal_newlines (cell_text (row_get r ''participant_id'' [])))),
      (''session_id'', Str (universal_newlines (cell_text (row_get r ''session_id'' [])))),
      (''sex'', Str (universal_newlines (cell_text (row_get r ''sex'' [])))),
      (''weight'', Str (universal_newlines (cell_text (row_get r ''weight'' [])))),
      (''age'', Str (universal_newlines (cell_text (row_get r ''age'' []))))]"
  by (simp add: reread_def dict_row_def clean_row_def headers_def)

lemma row_get_cr_free:
  assumes "cr_free_row r"
  shows "CR \<notin> set (cell_text (row_get r h []))"
proof (cases "map_of r h")
  case None
  then show ?thesis by (simp add: row_get_def cell_text_def)
next
  case (Some v)
  then have "(h, v) \<in> set r" by (rule map_of_SomeD)
  then have "CR \<notin> set (cell_text v)" using assms by (auto simp: cr_free_row_def list_all_iff)
  then show ?thesis using Some by (simp add: row_get_def)
qed

lemma write_field_text: "write_field v = write_field (Str (cell_text v))"
  by (cases v) (simp_all add: write_field_def cell_text_def needs_quotes_def)

lemma write_field_un:
  "CR \<notin> set (cell_text v) \<Longrightarrow> write_field (Str (universal_newlines (cell_text v))) = write_field v"
  using write_field_text[of v] by (simp add: universal_newlines_cr_free)

lemma write_reread:
  assumes "cr_free_row r"
  shows "write_row (clean_row (reread r)) = write_row (clean_row r)"
proof -
  have "map write_field (clean_row (reread r)) = map write_field (clean_row r)"
    using write_field_un[OF row_get_cr_free[OF assms]]
    by (simp add: reread_eq clean_row_def headers_def row_get_def)
  then show ?thesis by (simp only: write_row_def)
qed

lemma text_eq_Str: "s \<noteq> [] \<Longrightarrow> (Str (cell_text v) = Str s) = (v = Str s)"
  by (cases v) (auto simp: cell_text_def)

lemma row_matches_reread:
  assumes "s \<noteq> []" and "e \<noteq> []"
    and "CR \<notin> set (cell_text (row_get r ''participant_id'' []))"
    and "CR \<notin> set (cell_text (row_get r ''session_id'' []))"
  shows "row_matches s e (reread r) = row_matches s e r"
proof -
  have g: "row_get (reread r) ''participant_id'' [] = Str (cell_text (row_get r ''participant_id'' []))"
    "row_get (reread r) ''session_id'' [] = Str (cell_text (row_get r ''session_id'' []))"
    using assms(3,4) by (simp_all add: reread_eq row_get_def universal_newlines_cr_free)
  have n: "''n/a'' \<noteq> ([] :: string)" by simp
  show ?thesis
    unfolding row_matches_def Let_def g
    by (simp only: text_eq_Str[OF assms(1)] text_eq_Str[OF assms(2)] text_eq_Str[OF n])
qed

lemma clean_row_overwrite:
  "clean_row (overwrite_row e sex w a r) = [row_get r ''participant_id'' [], Str e, sex, w, a]"
  by (simp add: clean_row_def headers_def overwrite_row_def row_get_update)

lemma clean_row_new:
  "clean_row (new_row s e sex w a) = [Str s, Str e, sex, w, a]"
  by (simp add: clean_row_def headers_def new_row_def row_get_def)

lemma row_matches_overwrite:
  "row_matches s e r \<Longrightarrow> row_matches s e (overwrite_row e sex w a r)"
  by (simp add: row_matches_def Let_def overwrite_row_def row_get_update)

lemma row_matches_new: "row_matches s e (new_row s e sex w a)"
  by (simp add: row_matches_def Let_def new_row_def headers_def row_get_def)

lemma overwrite_keys:
  "row_get (overwrite_row e sex w a r) ''participant_id'' [] = row_get r ''participant_id'' []"
  "row_get (overwrite_row e sex w a r) ''session_id'' [] = Str e"
  by (simp_all add: overwrite_row_def row_get_update)

lemma new_row_keys:
  "row_get (new_row s e sex w a) ''participant_id'' [] = Str s"
  "row_get (new_row s e sex w a) ''session_id'' [] = Str e"
  by (simp_all add: new_row_def headers_def row_get_def)

lemma write_overwrite_reread:
  assumes "CR \<notin> set (cell_text (row_get r ''participant_id'' []))"
  shows "write_row (clean_row (overwrite_row e sex w a (reread r)))
     = write_row (clean_row (overwrite_row e sex w a r))"
proof -
  have "map write_field (clean_row (overwrite_row e sex w a (reread r)))
      = map write_field (clean_row (overwrite_row e sex w a r))"
    using write_field_un[OF assms]
    by (simp add: clean_row_overwrite reread_eq row_get_def)
  then show ?thesis by (simp only: write_row_def)
qed

lemma write_overwrite_again:
  assumes "CR \<notin> set (cell_text (row_get r ''participant_id'' []))"
  shows "write_row (clean_row (overwrite_row e sex w a (reread (overwrite_row e sex w a r))))
     = write_row (clean_row (overwrite_row e sex w a r))"
proof -
  have "CR \<notin> set (cell_text (row_get (overwrite_row e sex w a r) ''participant_id'' []))"
    using assms by (simp add: overwrite_keys)
  then have "write_row (clean_row (overwrite_row e sex w a (reread (overwrite_row e sex w a r))))
      = write_row (clean_row (overwrite_row e sex w a (overwrite_row e sex w a r)))"
    by (rule write_overwrite_reread)
  also have "\<dots> = write_row (clean_row (overwrite_row e sex w a r))"
    by (simp only: clean_row_overwrite overwrite_keys)
  finally show ?thesis .
qed

lemma write_overwrite_new:
  assumes "CR \<notin> set s"
  shows "write_row (clean_row (overwrite_row e sex w a (reread (new_row s e sex w a))))
     = write_row (clean_row (new_row s e sex w a))"
proof -
  have "CR \<notin> set (cell_text (row_get (new_row s e sex w a) ''participant_id'' []))"
    using assms by (simp add: new_row_keys cell_text_def)
  then have "write_row (clean_row (overwrite_row e sex w a (reread (new_row s e sex w a))))
      = write_row (clean_row (overwrite_row e sex w a (new_row s e sex w a)))"
    by (rule write_overwrite_reread)
  also have "\<dots> = write_row (clean_row (new_row s e sex w a))"
    by (simp only: clean_row_overwrite clean_row_new new_row_keys)
  finally show ?thesis .
qed

lemma merge_twice:
  assumes "s \<noteq> []" and "e \<noteq> []" and "CR \<notin> set s" and "CR \<notin> set e"
  shows "list_all cr_free_row rows \<Longrightarrow>
         map (\<lambda>r. write_row (clean_row r))
           (merge_rows s e sex w a (map reread (merge_rows s e sex w a rows)))
         = map (\<lambda>r. write_row (clean_row r)) (merge_rows s e sex w a rows)"
proof (induction rows)
  case Nil
  have "row_matches s e (reread (new_row s e sex w a))"
    using row_matches_new[of s e sex w a]
      row_matches_reread[OF assms(1,2), of "new_row s e sex w a"] assms(3,4)
    by (simp add: new_row_keys cell_text_def)
  then show ?case
    by (simp add: merge_rows_Nil merge_rows_Cons write_overwrite_new[OF assms(3)])
next
  case (Cons r rows)
  then have cr: "cr_free_row r" and crs: "list_all cr_free_row rows" by simp_all
  note kp = row_get_cr_free[OF cr, of "''participant_id''"]
  note ks = row_get_cr_free[OF cr, of "''session_id''"]
  have rest: "map (\<lambda>r. write_row (clean_row r)) (map reread rows)
      = map (\<lambda>r. write_row (clean_row r)) rows"
    using crs write_reread by (simp add: list_all_iff)
  show ?case
  proof (cases "row_matches s e r")
    case True
    have "row_matches s e (reread (overwrite_row e sex w a r))"
      using row_matches_overwrite[OF True, of sex w a]
        row_matches_reread[OF assms(1,2), of "overwrite_row e sex w a r"] kp assms(4)
      by (simp add: overwrite_keys cell_text_def)
    then show ?thesis using True rest
      by (simp add: merge_rows_Cons write_overwrite_again[OF kp])
  next
    case False
    then have "\<not> row_matches s e (reread r)"
      using row_matches_reread[OF assms(1,2) kp ks] by simp
    then show ?thesis using False Cons.IH[OF crs] write_reread[OF cr]
      by (simp add: merge_rows_Cons)
  qed
qed

lemma csv_parse_cr_free:
  "CR \<notin> set input \<Longrightarrow> CR \<notin> set cur \<Longrightarrow> list_all (\<lambda>f. CR \<notin> set f) saved \<Longrightarrow>
   list_all (list_all (\<lambda>f. CR \<notin> set f)) (csv_parse st saved cur input)"
proof (induction input arbitrary: st saved cur)
  case Nil
  then show ?case by (cases st) simp_all
next
  case (Cons c cs)
  then have c: "c \<noteq> CR" "CR \<notin> set cs" by auto
  show ?case
    using Cons.IH c Cons.prems(2,3) by (cases st) simp_all
qed

lemma update_values:
  "list_all P (map snd al) \<Longrightarrow> P v \<Longrightarrow> list_all P (map snd (AList.update k v al))"
  by (induction al) auto

lemma fold_update_values:
  "list_all P (map snd kvs) \<Longrightarrow> list_all P (map snd acc) \<Longrightarrow>
   list_all P (map snd (fold (\<lambda>kv d. AList.update (fst kv) (snd kv) d) kvs acc))"
proof (induction kvs arbitrary: acc)
  case Nil
  then show ?case by simp
next
  case (Cons kv kvs)
  then show ?case using update_values[of P acc "snd kv" "fst kv"] by simp
qed

lemma cr_free_row_alt: "cr_free_row r = list_all (\<lambda>v. CR \<notin> set (cell_text v)) (map snd r)"
  by (simp add: cr_free_row_def list_all_iff)

lemma dict_row_cr_free:
  assumes "list_all (\<lambda>f. CR \<notin> set f) r"
  shows "cr_free_row (dict_row fieldnames r)"
proof -
  have "list_all (\<lambda>v. CR \<notin> set (cell_text v))
          (map Str r @ replicate (length fieldnames - length r) NoneValue)"
    using assms by (auto simp: list_all_iff cell_text_def)
  then have "list_all (\<lambda>v. CR \<notin> set (cell_text v))
          (map snd (zip fieldnames (map Str r @ replicate (length fieldnames - length r) NoneValue)))"
    by (auto simp: list_all_iff dest: set_zip_rightD)
  then show ?thesis
    unfolding cr_free_row_alt dict_row_def
    by (rule fold_update_values) simp
qed

lemma read_rows_cr_free: "list_all cr_free_row (read_rows table_file)"
proof (cases table_file)
  case None
  then show ?thesis by (simp add: read_rows_def)
next
  case (Some content)
  define recs where "recs = csv_reader (universal_newlines (skip_bom content))"
  have r: "list_all (list_all (\<lambda>f. CR \<notin> set f)) recs"
    unfolding recs_def csv_reader_def
    by (rule csv_parse_cr_free) (simp_all add: universal_newlines_no_cr)
  have "list_all cr_free_row (dict_reader recs)"
  proof (cases recs)
    case Nil
    then show ?thesis by (simp add: dict_reader_def)
  next
    case (Cons fieldnames rest)
    then have "list_all (list_all (\<lambda>f. CR \<notin> set f)) rest" using r by simp
    then show ?thesis
      using dict_row_cr_free by (auto simp: dict_reader_def Cons list_all_iff)
  qed
  then show ?thesis by (simp add: read_rows_def Some recs_def)
qed

lemma skip_bom_written:
  "skip_bom (write_row (map Str headers) @ rest) = write_row (map Str headers) @ rest"
  by (simp add: skip_bom_def BOM_def write_row_def headers_def write_field_def needs_quotes_def)

lemma written_read_back:
  "csv_reader (universal_newlines (write_row (map Str headers)
           @ concat (map (\<lambda>row. write_row (clean_row row)) rows)))
   = headers # map (\<lambda>row. map (\<lambda>v. universal_newlines (cell_text v)) (clean_row row)) rows"
proof -
  define table where "table = map Str headers # map clean_row rows"
  have t: "write_row (map Str headers) @ concat (map (\<lambda>row. write_row (clean_row row)) rows)
      = concat (map write_row table)"
    by (simp add: table_def comp_def)
  have len: "list_all (\<lambda>cells. 2 \<le> length cells) table"
    by (simp add: table_def list_all_iff clean_row_def headers_def)
  have "map (\<lambda>v. universal_newlines (cell_text v)) (map Str headers) = headers"
    by (simp add: headers_def cell_text_def)
  then have "map (map (\<lambda>v. universal_newlines (cell_text v))) table
      = headers # map (\<lambda>row. map (\<lambda>v. universal_newlines (cell_text v)) (clean_row row)) rows"
    by (simp add: table_def comp_def)
  then show ?thesis by (simp only: t read_back[OF len])
qed

lemma read_rows_written:
  "read_rows (Some (write_row (map Str headers)
           @ concat (map (\<lambda>row. write_row (clean_row row)) rows))) = map reread rows"
proof -
  have "dict_reader (headers # map (\<lambda>row. map (\<lambda>v. universal_newlines (cell_text v)) (clean_row row)) rows)
      = map reread rows"
    by (simp add: dict_reader_def reread_def comp_def clean_row_def headers_def)
  then show ?thesis
    by (simp only: read_rows_def option.case skip_bom_written written_read_back)
qed

text \<open>
  C9, as amended. For every file at the path (or none) and every record whose
  participant\_id and session\_id are not empty and hold no carriage return, a second
  run of \<open>update_participants_tsv\<close> with the same record, on the file the first run
  wrote, writes the same file again.
\<close>

theorem update_participants_tsv_idempotent:
  assumes "subject_id \<noteq> []" and "session_id \<noteq> []"
    and "CR \<notin> set subject_id" and "CR \<notin> set session_id"
  shows "update_participants_tsv
           (Some (update_participants_tsv table_file subject_id session_id sex weight age))
           subject_id session_id sex weight age
         = update_participants_tsv table_file subject_id session_id sex weight age"
proof -
  define rows1 where
    "rows1 = merge_rows subject_id session_id sex weight age (read_rows table_file)"
  have out1: "update_participants_tsv table_file subject_id session_id sex weight age
      = write_row (map Str headers) @ concat (map (\<lambda>row. write_row (clean_row row)) rows1)"
    by (simp add: update_participants_tsv_def rows1_def)
  have "update_participants_tsv
           (Some (write_row (map Str headers) @ concat (map (\<lambda>row. write_row (clean_row row)) rows1)))
           subject_id session_id sex weight age
      = write_row (map Str headers)
        @ concat (map (\<lambda>row. write_row (clean_row row))
            (merge_rows subject_id session_id sex weight age (map reread rows1)))"
    by (simp only: update_participants_tsv_def read_rows_written)
  also have "\<dots> = write_row (map Str headers) @ concat (map (\<lambda>row. write_row (clean_row row)) rows1)"
    using merge_twice[OF assms, of "read_rows table_file" sex weight age] read_rows_cr_free
    by (simp only: rows1_def)
  finally show ?thesis by (simp only: out1)
qed

lemmas table_defs =
  update_participants_tsv_def read_rows_def skip_bom_def BOM_def csv_reader_def
  dict_reader_def dict_row_def merge_rows_def row_matches_def row_get_def overwrite_row_def
  new_row_def headers_def clean_row_def write_row_def write_field_def needs_quotes_def Let_def

theorem update_participants_tsv_idempotent_witness:
  "update_participants_tsv
     (Some (update_participants_tsv None ''sub-A'' ''ses-1'' (Str ''M'') (Str ''70'') NoneValue))
     ''sub-A'' ''ses-1'' (Str ''M'') (Str ''70'') NoneValue
   = update_participants_tsv None ''sub-A'' ''ses-1'' (Str ''M'') (Str ''70'') NoneValue"
  using update_participants_tsv_idempotent[of "''sub-A''" "''ses-1''" None "Str ''M''" "Str ''70''"
      NoneValue]
  by simp

text \<open>
  Where C9 as stated fails: the table holds the row \<open>P\<close> with no other cell and the
  record has the empty session\_id. The first run reads the missing session\_id as
  \<open>None\<close>, which is not the empty string, and appends a row; it writes that \<open>None\<close> as an
  empty cell, so the second run finds the empty session\_id in the first row and
  overwrites it.
\<close>

lemma short_row_runs:
  "update_participants_tsv
     (Some (''participant_id'' @ TAB # ''session_id'' @ TAB # ''sex'' @ TAB # ''weight'' @ TAB # ''age''
            @ LF # ''P'' @ [LF]))
     ''P'' [] (Str ''M'') (Str ''70'') (Str ''30'')
   = ''participant_id'' @ TAB # ''session_id'' @ TAB # ''sex'' @ TAB # ''weight'' @ TAB # ''age''
     @ CR # LF # ''P'' @ TAB # TAB # TAB # TAB # CR # LF
     # ''P'' @ TAB # TAB # ''M'' @ TAB # ''70'' @ TAB # ''30'' @ [CR, LF]
   \<and> update_participants_tsv
     (Some (''participant_id'' @ TAB # ''session_id'' @ TAB # ''sex'' @ TAB # ''weight'' @ TAB # ''age''
     @ CR # LF # ''P'' @ TAB # TAB # TAB # TAB # CR # LF
     # ''P'' @ TAB # TAB # ''M'' @ TAB # ''70'' @ TAB # ''30'' @ [CR, LF]))
     ''P'' [] (Str ''M'') (Str ''70'') (Str ''30'')
   = ''participant_id'' @ TAB # ''session_id'' @ TAB # ''sex'' @ TAB # ''weight'' @ TAB # ''age''
     @ CR # LF # ''P'' @ TAB # TAB # ''M'' @ TAB # ''70'' @ TAB # ''30'' @ CR # LF
     # ''P'' @ TAB # TAB # ''M'' @ TAB # ''70'' @ TAB # ''30'' @ [CR, LF]"
  by (simp add: table_defs)


text \<open>The two runs of the counterexample to C9 write different files.\<close>

theorem update_participants_tsv_short_row_counterexample:
  "update_participants_tsv
     (Some (update_participants_tsv
        (Some (''participant_id'' @ TAB # ''session_id'' @ TAB # ''sex'' @ TAB # ''weight'' @ TAB # ''age''
               @ LF # ''P'' @ [LF]))
        ''P'' [] (Str ''M'') (Str ''70'') (Str ''30'')))
     ''P'' [] (Str ''M'') (Str ''70'') (Str ''30'')
   \<noteq> update_participants_tsv
        (Some (''participant_id'' @ TAB # ''session_id'' @ TAB # ''sex'' @ TAB # ''weight'' @ TAB # ''age''
               @ LF # ''P'' @ [LF]))
        ''P'' [] (Str ''M'') (Str ''70'') (Str ''30'')"
  using short_row_runs by simp

text \<open>
  A carriage return in the participant\_id is read back as a line feed, so the second
  run does not find the row the first run wrote and appends another.
\<close>

lemma carriage_return_runs:
  "update_participants_tsv
     (Some (update_participants_tsv None [CHR ''a'', CR, CHR ''b''] ''s'' (Str ''M'') (Str ''70'') (Str ''30'')))
     [CHR ''a'', CR, CHR ''b''] ''s'' (Str ''M'') (Str ''70'') (Str ''30'')
   \<noteq> update_participants_tsv None [CHR ''a'', CR, CHR ''b''] ''s'' (Str ''M'') (Str ''70'') (Str ''30'')"
  by (simp add: table_defs)

lemma skip_bom_BOM: "skip_bom (BOM @ content) = content"
  by (simp add: skip_bom_def)

lemma written_no_bom: "\<not> prefix BOM (write_row (map Str headers) @ rest)"
  by (simp add: BOM_def write_row_def headers_def write_field_def needs_quotes_def)

lemma written_header:
  "write_row (map Str headers)
     = ''participant_id'' @ TAB # ''session_id'' @ TAB # ''sex'' @ TAB # ''weight'' @ TAB # ''age''
       @ [CR, LF]"
  by (simp add: write_row_def headers_def write_field_def needs_quotes_def)

text \<open>
  C10, as amended. The file written starts with the header line of the five column
  names joined by tabs, and holds after it one line per row: the five cells of the
  row under those names, joined by tabs, where a key the row lacks gives the empty
  string; every line ends with CR LF. The file does not start with a byte order mark.
  Read back, it is the five names followed by five cells per row. A byte order mark at
  the start of the file read is skipped, so the file written is the same with and
  without it.
\<close>

theorem update_participants_tsv_format:
  "update_participants_tsv file subject_id session_id sex weight age
     = (''participant_id'' @ TAB # ''session_id'' @ TAB # ''sex'' @ TAB # ''weight'' @ TAB # ''age''
        @ [CR, LF])
       @ concat (map (\<lambda>row. join_tab (map write_field (clean_row row)) @ [CR, LF])
                  (merge_rows subject_id session_id sex weight age (read_rows file)))
   \<and> (\<forall>row. clean_row row
          = [row_get row ''participant_id'' [], row_get row ''session_id'' [],
             row_get row ''sex'' [], row_get row ''weight'' [], row_get row ''age'' []])
   \<and> (\<forall>row key. map_of row key = None \<longrightarrow> row_get row key [] = Str [])
   \<and> \<not> prefix BOM (update_participants_tsv file subject_id session_id sex weight age)
   \<and> csv_reader (universal_newlines
          (update_participants_tsv file subject_id session_id sex weight age))
        = headers # map (\<lambda>row. map (\<lambda>v. universal_newlines (cell_text v)) (clean_row row))
                      (merge_rows subject_id session_id sex weight age (read_rows file))
   \<and> (\<forall>content. read_rows (Some (BOM @ content))
          = dict_reader (csv_reader (universal_newlines content)))
   \<and> (\<forall>content. \<not> prefix BOM content \<longrightarrow>
          update_participants_tsv (Some (BOM @ content)) subject_id session_id sex weight age
            = update_participants_tsv (Some content) subject_id session_id sex weight age)"
proof (intro conjI allI impI)
  show "update_participants_tsv file subject_id session_id sex weight age
     = (''participant_id'' @ TAB # ''session_id'' @ TAB # ''sex'' @ TAB # ''weight'' @ TAB # ''age''
        @ [CR, LF])
       @ concat (map (\<lambda>row. join_tab (map write_field (clean_row row)) @ [CR, LF])
                  (merge_rows subject_id session_id sex weight age (read_rows file)))"
    unfolding update_participants_tsv_def written_header by (simp add: write_row_def)
next
  fix row
  show "clean_row row
          = [row_get row ''participant_id'' [], row_get row ''session_id'' [],
             row_get row ''sex'' [], row_get row ''weight'' [], row_get row ''age'' []]"
    by (simp add: clean_row_def headers_def)
next
  fix row :: row and key
  assume "map_of row key = None"
  then show "row_get row key [] = Str []" by (simp add: row_get_def)
next
  show "\<not> prefix BOM (update_participants_tsv file subject_id session_id sex weight age)"
    unfolding update_participants_tsv_def by (rule written_no_bom)
next
  show "csv_reader (universal_newlines
          (update_participants_tsv file subject_id session_id sex weight age))
        = headers # map (\<lambda>row. map (\<lambda>v. universal_newlines (cell_text v)) (clean_row row))
                      (merge_rows subject_id session_id sex weight age (read_rows file))"
    unfolding update_participants_tsv_def by (rule written_read_back)
next
  fix content
  show "read_rows (Some (BOM @ content)) = dict_reader (csv_reader (universal_newlines content))"
    by (simp add: read_rows_def skip_bom_BOM)
next
  fix content
  assume "\<not> prefix BOM content"
  then have "read_rows (Some (BOM @ content)) = read_rows (Some content)"
    by (simp add: read_rows_def skip_bom_BOM) (simp add: skip_bom_def)
  then show "update_participants_tsv (Some (BOM @ content)) subject_id session_id sex weight age
            = update_participants_tsv (Some content) subject_id session_id sex weight age"
    by (simp add: update_participants_tsv_def)
qed

theorem update_participants_tsv_format_witness:
  "update_participants_tsv
     (Some (BOM @ ''participant_id'' @ TAB # ''note'' @ LF # ''sub-A'' @ TAB # ''hello'' @ [LF]))
     ''sub-B'' ''ses-1'' (Str ''M'') (Str ''70'') (Str ''30'')
   = ''participant_id'' @ TAB # ''session_id'' @ TAB # ''sex'' @ TAB # ''weight'' @ TAB # ''age''
     @ CR # LF # ''sub-A'' @ TAB # TAB # TAB # TAB # CR # LF
     # ''sub-B'' @ TAB # ''ses-1'' @ TAB # ''M'' @ TAB # ''70'' @ TAB # ''30'' @ [CR, LF]"
proof -
  have n: "\<not> prefix BOM (''participant_id'' @ TAB # ''note'' @ LF # ''sub-A'' @ TAB # ''hello'' @ [LF])"
    by (simp add: BOM_def)
  have "update_participants_tsv
     (Some (BOM @ ''participant_id'' @ TAB # ''note'' @ LF # ''sub-A'' @ TAB # ''hello'' @ [LF]))
     ''sub-B'' ''ses-1'' (Str ''M'') (Str ''70'') (Str ''30'')
    = update_participants_tsv
     (Some (''participant_id'' @ TAB # ''note'' @ LF # ''sub-A'' @ TAB # ''hello'' @ [LF]))
     ''sub-B'' ''ses-1'' (Str ''M'') (Str ''70'') (Str ''30'')"
    using update_participants_tsv_format[of None "''sub-B''" "''ses-1''" "Str ''M''" "Str ''70''"
        "Str ''30''"] n
    by blast
  also have "\<dots> = ''participant_id'' @ TAB # ''session_id'' @ TAB # ''sex'' @ TAB # ''weight'' @ TAB # ''age''
     @ CR # LF # ''sub-A'' @ TAB # TAB # TAB # TAB # CR # LF
     # ''sub-B'' @ TAB # ''ses-1'' @ TAB # ''M'' @ TAB # ''70'' @ TAB # ''30'' @ [CR, LF]"
    by (simp add: table_defs)
  finally show ?thesis .
qed

text \<open>
  C10 as stated fails on the place of the header line: it is the first line of the
  file written, not a trailing one, and the file ends with a data row.
\<close>

theorem header_line_not_last_counterexample:
  "update_participants_tsv None ''sub-A'' ''ses-1'' (Str ''M'') (Str ''70'') (Str ''30'')
   = ''participant_id'' @ TAB # ''session_id'' @ TAB # ''sex'' @ TAB # ''weight'' @ TAB # ''age''
     @ CR # LF # ''sub-A'' @ TAB # ''ses-1'' @ TAB # ''M'' @ TAB # ''70'' @ TAB # ''30'' @ [CR, LF]
   \<and> \<not> suffix (''participant_id'' @ TAB # ''session_id'' @ TAB # ''sex'' @ TAB # ''weight'' @ TAB # ''age''
               @ [CR, LF])
        (update_participants_tsv None ''sub-A'' ''ses-1'' (Str ''M'') (Str ''70'') (Str ''30''))"
  by (simp add: table_defs suffix_to_prefix)

end
